theory Spec2Isabelle
  imports Complex_Main
begin

section \<open>JavaScript values used by the memory-neo4j plug-in\<close>

text \<open>
  A JavaScript string is a sequence of UTF-16 code units; \<open>length\<close>, \<open>slice\<close>,
  \<open>lastIndexOf\<close> and the regular expressions without the \<open>u\<close> flag all count code
  units. The ASCII literals of the source are written with \<open>js\<close>.
\<close>

type_synonym jsstring = "nat list"

definition js :: "string \<Rightarrow> jsstring" where
  "js s = map of_char s"

text \<open>
  A JavaScript number is an IEEE double. The plug-in only compares numbers and takes
  minima and maxima, which are exact on doubles, so a finite number is kept as a real;
  NaN and the two infinities are values of their own, with the comparison and
  \<open>Math.min\<close>/\<open>Math.max\<close> rules of ECMAScript (every comparison with NaN is false,
  \<open>Math.min\<close> and \<open>Math.max\<close> return NaN as soon as one argument is NaN).
\<close>

datatype number = NaN | NegInf | Num real | PosInf

fun num_lt :: "number \<Rightarrow> number \<Rightarrow> bool" where
  "num_lt NaN _ = False"
| "num_lt _ NaN = False"
| "num_lt PosInf _ = False"
| "num_lt _ NegInf = False"
| "num_lt NegInf _ = True"
| "num_lt _ PosInf = True"
| "num_lt (Num a) (Num b) = (a < b)"

definition num_gt :: "number \<Rightarrow> number \<Rightarrow> bool" where
  "num_gt a b = num_lt b a"

definition num_le :: "number \<Rightarrow> number \<Rightarrow> bool" where
  "num_le a b = (a \<noteq> NaN \<and> b \<noteq> NaN \<and> \<not> num_lt b a)"

definition Math_min :: "number \<Rightarrow> number \<Rightarrow> number" where
  "Math_min a b = (if a = NaN \<or> b = NaN then NaN else if num_lt b a then b else a)"

definition Math_max :: "number \<Rightarrow> number \<Rightarrow> number" where
  "Math_max a b = (if a = NaN \<or> b = NaN then NaN else if num_lt a b then b else a)"

definition Number_isNaN :: "number \<Rightarrow> bool" where
  "Number_isNaN x = (x = NaN)"

subsection \<open>White space, trimming, searching\<close>

text \<open>
  The code units that \<open>String.prototype.trim\<close> strips and that \<open>\s\<close> matches
  (ECMAScript WhiteSpace and LineTerminator).
\<close>

definition is_ws :: "nat \<Rightarrow> bool" where
  "is_ws c = (c = 9 \<or> c = 10 \<or> c = 11 \<or> c = 12 \<or> c = 13 \<or> c = 32 \<or> c = 160 \<or>
     c = 5760 \<or> (8192 \<le> c \<and> c \<le> 8202) \<or> c = 8232 \<or> c = 8233 \<or> c = 8239 \<or>
     c = 8287 \<or> c = 12288 \<or> c = 65279)"

definition trim :: "jsstring \<Rightarrow> jsstring" where
  "trim s = rev (dropWhile is_ws (rev (dropWhile is_ws s)))"

fun starts_with :: "jsstring \<Rightarrow> jsstring \<Rightarrow> bool" where
  "starts_with s [] = True"
| "starts_with [] (p # ps) = False"
| "starts_with (c # cs) (p # ps) = (c = p \<and> starts_with cs ps)"

text \<open>\<open>s.includes(p)\<close>: \<open>p\<close> occurs in \<open>s\<close> at some index.\<close>

fun str_includes :: "jsstring \<Rightarrow> jsstring \<Rightarrow> bool" where
  "str_includes [] p = (p = [])"
| "str_includes (c # cs) p = (starts_with (c # cs) p \<or> str_includes cs p)"

text \<open>
  \<open>s.split(/\s+/)\<close>: the pieces of \<open>s\<close> between the maximal runs of white space. A run
  at the start or at the end leaves an empty piece there, and the empty string splits
  into one empty piece, as in ECMAScript.
\<close>

function split_ws :: "jsstring \<Rightarrow> jsstring list" where
  "split_ws s =
     (case dropWhile (\<lambda>c. \<not> is_ws c) s of
        [] \<Rightarrow> [s]
      | c # r \<Rightarrow> takeWhile (\<lambda>c. \<not> is_ws c) s # split_ws (dropWhile is_ws r))"
  by pat_completeness auto
termination
proof (relation "measure length")
  show "wf (measure length)" by simp
next
  fix s :: jsstring and c r
  assume d: "dropWhile (\<lambda>c. \<not> is_ws c) s = c # r"
  have "length (dropWhile is_ws r) \<le> length r"
    by (rule length_dropWhile_le)
  moreover have "length (c # r) \<le> length s"
    using length_dropWhile_le [of "\<lambda>c. \<not> is_ws c" s] d by simp
  ultimately show "(dropWhile is_ws r, s) \<in> measure length"
    by simp
qed

declare split_ws.simps [simp del]

section \<open>Regular expressions\<close>

text \<open>
  The patterns of the source are kept as syntax trees and run by a backtracking matcher
  that follows the ECMAScript semantics: alternatives are tried left to right, a greedy
  star tries one more iteration before stopping, a lazy star stops before trying one
  more, and an iteration that consumes nothing is rejected. A matcher state is the end
  index reached so far together with the rest of the input from there. \<open>rx_match\<close>
  returns the states after every way to match, in the order backtracking would reach
  them, so the head of the list is the match that \<open>exec\<close> reports.

  \<open>Chr\<close> is a pattern character, \<open>Cls\<close> a bracket class given by its ranges, \<open>Esc\<close> one
  of the escapes \<open>\s \S \w \d\<close> or the dot, \<open>UCls\<close> a class of a pattern with the \<open>u\<close> flag
  (it consumes a whole code point, a surrogate pair included), \<open>Bos\<close> and \<open>Eos\<close> the
  anchors \<open>^\<close> and \<open>$\<close> (no pattern of the source has the \<open>m\<close> flag).
\<close>

datatype rx =
    Eps
  | Chr nat
  | Cls "(nat \<times> nat) list"
  | Esc "nat \<Rightarrow> bool"
  | UCls "nat \<Rightarrow> bool"
  | Bos
  | Eos
  | Seq rx rx
  | Alt rx rx
  | Star rx
  | LazyStar rx

type_synonym mstate = "nat \<times> jsstring"

text \<open>
  Case folding of the \<open>i\<close> flag without the \<open>u\<close> flag: both sides are upper-cased, and a
  code unit of 128 or more never folds to an ASCII one. All pattern characters and class
  ranges of the source are ASCII, so only the ASCII letters fold.
\<close>

definition canon :: "nat \<Rightarrow> nat" where
  "canon c = (if 97 \<le> c \<and> c \<le> 122 then c - 32 else c)"

definition uncanon :: "nat \<Rightarrow> nat" where
  "uncanon c = (if 65 \<le> c \<and> c \<le> 90 then c + 32 else c)"

definition in_ranges :: "(nat \<times> nat) list \<Rightarrow> nat \<Rightarrow> bool" where
  "in_ranges rs c = list_ex (\<lambda>(lo, hi). lo \<le> c \<and> c \<le> hi) rs"

definition chr_ok :: "bool \<Rightarrow> nat \<Rightarrow> nat \<Rightarrow> bool" where
  "chr_ok ic p c = (if ic then canon p = canon c else p = c)"

definition cls_ok :: "bool \<Rightarrow> (nat \<times> nat) list \<Rightarrow> nat \<Rightarrow> bool" where
  "cls_ok ic rs c =
     (if ic then in_ranges rs c \<or> in_ranges rs (canon c) \<or> in_ranges rs (uncanon c)
      else in_ranges rs c)"

fun one_unit :: "(nat \<Rightarrow> bool) \<Rightarrow> mstate \<Rightarrow> mstate list" where
  "one_unit p (i, []) = []"
| "one_unit p (i, c # t) = (if p c then [(Suc i, t)] else [])"

definition is_high_surrogate :: "nat \<Rightarrow> bool" where
  "is_high_surrogate c = (55296 \<le> c \<and> c \<le> 56319)"

definition is_low_surrogate :: "nat \<Rightarrow> bool" where
  "is_low_surrogate c = (56320 \<le> c \<and> c \<le> 57343)"

definition code_point :: "nat \<Rightarrow> nat \<Rightarrow> nat" where
  "code_point hi lo = 65536 + (hi - 55296) * 1024 + (lo - 56320)"

fun one_point :: "(nat \<Rightarrow> bool) \<Rightarrow> mstate \<Rightarrow> mstate list" where
  "one_point p (i, []) = []"
| "one_point p (i, [c]) = (if p c then [(Suc i, [])] else [])"
| "one_point p (i, c # d # t) =
     (if is_high_surrogate c \<and> is_low_surrogate d
      then (if p (code_point c d) then [(i + 2, t)] else [])
      else (if p c then [(Suc i, d # t)] else []))"

function star_iter :: "(mstate \<Rightarrow> mstate list) \<Rightarrow> bool \<Rightarrow> mstate \<Rightarrow> mstate list" where
  "star_iter f greedy x =
     (let more = concat (map (\<lambda>y. if length (snd y) < length (snd x)
                                    then star_iter f greedy y else []) (f x))
      in if greedy then more @ [x] else x # more)"
  by pat_completeness auto
termination
  by (relation "measure (\<lambda>(f, g, x). length (snd x))") auto

declare star_iter.simps [simp del]

fun rx_match :: "bool \<Rightarrow> rx \<Rightarrow> mstate \<Rightarrow> mstate list" where
  "rx_match ic Eps x = [x]"
| "rx_match ic (Chr p) x = one_unit (chr_ok ic p) x"
| "rx_match ic (Cls rs) x = one_unit (cls_ok ic rs) x"
| "rx_match ic (Esc p) x = one_unit p x"
| "rx_match ic (UCls p) x = one_point p x"
| "rx_match ic Bos x = (if fst x = 0 then [x] else [])"
| "rx_match ic Eos x = (if snd x = [] then [x] else [])"
| "rx_match ic (Seq a b) x = concat (map (rx_match ic b) (rx_match ic a x))"
| "rx_match ic (Alt a b) x = rx_match ic a x @ rx_match ic b x"
| "rx_match ic (Star a) x = star_iter (rx_match ic a) True x"
| "rx_match ic (LazyStar a) x = star_iter (rx_match ic a) False x"

text \<open>
  Every state that the matcher returns is further on in the same input: its rest is no
  longer, and its end index has grown by what was consumed.
\<close>

definition later :: "mstate \<Rightarrow> mstate \<Rightarrow> bool" where
  "later x y = (length (snd y) \<le> length (snd x) \<and>
     fst y + length (snd y) = fst x + length (snd x))"

lemma later_trans: "later x y \<Longrightarrow> later y z \<Longrightarrow> later x z"
  by (simp add: later_def)

lemma one_unit_later:
  "y \<in> set (one_unit p x) \<Longrightarrow> later x y \<and> length (snd y) < length (snd x)"
  by (induction p x rule: one_unit.induct) (auto simp: later_def split: if_splits)

lemma one_point_later:
  "y \<in> set (one_point p x) \<Longrightarrow> later x y \<and> length (snd y) < length (snd x)"
  by (induction p x rule: one_point.induct) (auto simp: later_def split: if_splits)

lemma star_iter_later:
  assumes f: "\<And>x y. y \<in> set (f x) \<Longrightarrow> later x y"
  shows "y \<in> set (star_iter f g x) \<Longrightarrow> later x y"
  using f
proof (induction f g x arbitrary: y rule: star_iter.induct)
  case (1 f g x)
  have fl: "\<And>x y. y \<in> set (f x) \<Longrightarrow> later x y"
    using "1.prems" by blast
  have mem: "y \<in> set (star_iter f g x)"
    using "1.prems" by blast
  from mem have "y = x \<or> (\<exists>u \<in> set (f x). length (snd u) < length (snd x) \<and>
      y \<in> set (star_iter f g u))"
    by (subst (asm) star_iter.simps) (auto simp: Let_def split: if_splits)
  then show ?case
  proof
    assume "y = x"
    then show ?thesis by (simp add: later_def)
  next
    assume "\<exists>u \<in> set (f x). length (snd u) < length (snd x) \<and> y \<in> set (star_iter f g u)"
    then obtain u where u: "u \<in> set (f x)" "length (snd u) < length (snd x)"
        "y \<in> set (star_iter f g u)"
      by blast
    have "later x u" using fl u(1) by blast
    moreover have "later u y" using "1.IH" [OF u(1) u(2) u(3)] fl by blast
    ultimately show ?thesis by (rule later_trans)
  qed
qed

lemma rx_match_later: "y \<in> set (rx_match ic r x) \<Longrightarrow> later x y"
proof (induction r arbitrary: x y)
  case (Chr p)
  then show ?case using one_unit_later [of y "chr_ok ic p" x] by simp
next
  case (Cls rs)
  then show ?case using one_unit_later [of y "cls_ok ic rs" x] by simp
next
  case (Esc p)
  then show ?case using one_unit_later [of y p x] by simp
next
  case (UCls p)
  then show ?case using one_point_later [of y p x] by simp
next
  case (Seq a b)
  from Seq.prems obtain u where "u \<in> set (rx_match ic a x)" "y \<in> set (rx_match ic b u)"
    by auto
  then show ?case using Seq.IH(1) [of u x] Seq.IH(2) [of y u] later_trans by blast
next
  case (Alt a b)
  from Alt.prems have "y \<in> set (rx_match ic a x) \<or> y \<in> set (rx_match ic b x)"
    by simp
  then show ?case using Alt.IH(1) [of y x] Alt.IH(2) [of y x] by blast
next
  case (Star a)
  then show ?case using star_iter_later [of "rx_match ic a" y True x] by simp
next
  case (LazyStar a)
  then show ?case using star_iter_later [of "rx_match ic a" y False x] by simp
qed (auto simp: later_def split: if_splits)

subsection \<open>RegExp objects: flags, \<open>lastIndex\<close>, \<open>exec\<close> and \<open>test\<close>\<close>

record regexp =
  body :: rx
  ignoreCase :: bool
  global :: bool
  unicode :: bool

text \<open>The next start position of a search: one code unit, or with the \<open>u\<close> flag one code point.\<close>

fun advance :: "bool \<Rightarrow> mstate \<Rightarrow> mstate" where
  "advance u (i, []) = (i, [])"
| "advance u (i, [c]) = (Suc i, [])"
| "advance u (i, c # d # t) =
     (if u \<and> is_high_surrogate c \<and> is_low_surrogate d then (i + 2, t) else (Suc i, d # t))"

lemma advance_later:
  "snd x \<noteq> [] \<Longrightarrow> later x (advance u x) \<and> length (snd (advance u x)) < length (snd x)"
  by (induction u x rule: advance.induct) (auto simp: later_def)

text \<open>
  The leftmost match at or after the current position. The result is the pair
  (index, end index) of the match.
\<close>

function rx_search :: "bool \<Rightarrow> bool \<Rightarrow> rx \<Rightarrow> mstate \<Rightarrow> (nat \<times> nat) option" where
  "rx_search ic u r x =
     (case rx_match ic r x of
        y # ys \<Rightarrow> Some (fst x, fst y)
      | [] \<Rightarrow> if snd x = [] then None else rx_search ic u r (advance u x))"
  by pat_completeness auto
termination
proof (relation "measure (\<lambda>(ic, u, r, x). length (snd x))")
  show "wf (measure (\<lambda>(ic, u, r, x). length (snd x)))" by simp
next
  fix ic u :: bool and r :: rx and x :: mstate
  assume "snd x \<noteq> []"
  then show "((ic, u, r, advance u x), ic, u, r, x) \<in> measure (\<lambda>(ic, u, r, x). length (snd x))"
    by (simp add: advance_later)
qed

declare rx_search.simps [simp del]

text \<open>
  RegExpBuiltinExec: a pattern with the \<open>g\<close> flag starts at \<open>lastIndex\<close> and stores the end
  of the match there (0 after a failure); a pattern without it starts at 0 and neither
  reads nor writes \<open>lastIndex\<close>. The second component is the new \<open>lastIndex\<close>.
\<close>

definition regexp_exec :: "regexp \<Rightarrow> nat \<Rightarrow> jsstring \<Rightarrow> (nat \<times> nat) option \<times> nat" where
  "regexp_exec R li s =
     (let start = (if global R then li else 0) in
      if length s < start then (None, if global R then 0 else li)
      else (case rx_search (ignoreCase R) (unicode R) (body R) (start, drop start s) of
              None \<Rightarrow> (None, if global R then 0 else li)
            | Some m \<Rightarrow> (Some m, if global R then snd m else li)))"

definition regexp_test :: "regexp \<Rightarrow> nat \<Rightarrow> jsstring \<Rightarrow> bool \<times> nat" where
  "regexp_test R li s = (case regexp_exec R li s of (m, li') \<Rightarrow> (m \<noteq> None, li'))"

subsection \<open>Writing patterns\<close>

definition Opt :: "rx \<Rightarrow> rx" where
  "Opt r = Alt r Eps"

definition Plus :: "rx \<Rightarrow> rx" where
  "Plus r = Seq r (Star r)"

definition seqs :: "rx list \<Rightarrow> rx" where
  "seqs rs = foldr Seq rs Eps"

fun alts :: "rx list \<Rightarrow> rx" where
  "alts [] = Cls []"
| "alts [r] = r"
| "alts (r # rs) = Alt r (alts rs)"

definition lit :: "string \<Rightarrow> rx" where
  "lit s = seqs (map (\<lambda>c. Chr (of_char c)) s)"

definition words :: "string list \<Rightarrow> rx" where
  "words ws = alts (map lit ws)"

definition chars :: "string \<Rightarrow> (nat \<times> nat) list" where
  "chars s = map (\<lambda>c. (of_char c, of_char c)) s"

text \<open>\<open>r{n}\<close> and the greedy \<open>r{0,n}\<close>.\<close>

primrec rep :: "nat \<Rightarrow> rx \<Rightarrow> rx" where
  "rep 0 r = Eps"
| "rep (Suc n) r = Seq r (rep n r)"

primrec rep_upto :: "nat \<Rightarrow> rx \<Rightarrow> rx" where
  "rep_upto 0 r = Eps"
| "rep_upto (Suc n) r = Opt (Seq r (rep_upto n r))"

lemma rep_numeral: "rep (numeral k) r = Seq r (rep (pred_numeral k) r)"
  by (simp add: numeral_eq_Suc)

lemma rep_upto_numeral: "rep_upto (numeral k) r = Opt (Seq r (rep_upto (pred_numeral k) r))"
  by (simp add: numeral_eq_Suc)

definition is_digit :: "nat \<Rightarrow> bool" where
  "is_digit c = (48 \<le> c \<and> c \<le> 57)"

definition is_word :: "nat \<Rightarrow> bool" where
  "is_word c = ((97 \<le> c \<and> c \<le> 122) \<or> (65 \<le> c \<and> c \<le> 90) \<or> is_digit c \<or> c = 95)"

definition is_line_terminator :: "nat \<Rightarrow> bool" where
  "is_line_terminator c = (c = 10 \<or> c = 13 \<or> c = 8232 \<or> c = 8233)"

definition ws :: rx where "ws = Esc is_ws"
definition non_ws :: rx where "non_ws = Esc (\<lambda>c. \<not> is_ws c)"
definition word_char :: rx where "word_char = Esc is_word"
definition digit :: rx where "digit = Esc is_digit"
definition dot :: rx where "dot = Esc (\<lambda>c. \<not> is_line_terminator c)"
definition any_char :: rx where "any_char = Esc (\<lambda>c. True)"

definition regex :: "rx \<Rightarrow> bool \<Rightarrow> bool \<Rightarrow> bool \<Rightarrow> regexp" where
  "regex r i g u = \<lparr>body = r, ignoreCase = i, global = g, unicode = u\<rparr>"

subsection \<open>Positions reported by a search\<close>

lemma rx_search_bounds:
  "rx_search ic u r x = Some (i, e) \<Longrightarrow> fst x \<le> i \<and> i \<le> e \<and> e \<le> fst x + length (snd x)"
proof (induction ic u r x rule: rx_search.induct)
  case (1 ic u r x)
  show ?case
  proof (cases "rx_match ic r x")
    case Nil
    with "1.prems" have ne: "snd x \<noteq> []" and rec: "rx_search ic u r (advance u x) = Some (i, e)"
      by (auto simp: rx_search.simps [of ic u r x] split: if_splits)
    from advance_later [OF ne, of u] "1.IH" [OF Nil ne rec] show ?thesis
      by (simp add: later_def)
  next
    case (Cons y ys)
    with "1.prems" have ie: "i = fst x" "e = fst y"
      by (auto simp: rx_search.simps [of ic u r x])
    have "later x y"
      using rx_match_later [of y ic r x] Cons by simp
    with ie show ?thesis by (simp add: later_def)
  qed
qed

lemma rx_search_progress:
  assumes step: "\<And>x y. y \<in> set (rx_match ic r x) \<Longrightarrow> length (snd y) < length (snd x)"
  shows "rx_search ic u r x = Some (i, e) \<Longrightarrow> i < e"
  using step
proof (induction ic u r x rule: rx_search.induct)
  case (1 ic u r x)
  have st: "\<And>x y. y \<in> set (rx_match ic r x) \<Longrightarrow> length (snd y) < length (snd x)"
    using "1.prems" by blast
  have sr: "rx_search ic u r x = Some (i, e)"
    using "1.prems" by blast
  show ?case
  proof (cases "rx_match ic r x")
    case Nil
    with sr have ne: "snd x \<noteq> []" and rec: "rx_search ic u r (advance u x) = Some (i, e)"
      by (auto simp: rx_search.simps [of ic u r x] split: if_splits)
    from "1.IH" [OF Nil ne rec st] show ?thesis by simp
  next
    case (Cons y ys)
    with sr have ie: "i = fst x" "e = fst y"
      by (auto simp: rx_search.simps [of ic u r x])
    have "length (snd y) < length (snd x)"
      using st [of y x] Cons by simp
    moreover have "later x y"
      using rx_match_later [of y ic r x] Cons by simp
    ultimately show ?thesis using ie by (simp add: later_def)
  qed
qed

lemma regexp_exec_global:
  assumes "global R" and "regexp_exec R li s = (Some (i, e), li')"
  shows "li \<le> i \<and> i \<le> e \<and> e \<le> length s \<and> li' = e \<and> li \<le> length s"
proof -
  from assms have le: "li \<le> length s"
    by (auto simp: regexp_exec_def Let_def split: if_splits)
  with assms have s: "rx_search (ignoreCase R) (unicode R) (body R) (li, drop li s) = Some (i, e)"
    and l: "li' = e"
    by (auto simp: regexp_exec_def Let_def split: if_splits option.splits)
  from rx_search_bounds [OF s] le have "li \<le> i \<and> i \<le> e \<and> e \<le> length s"
    by simp
  with l le show ?thesis by simp
qed

text \<open>
  \<open>String.prototype.match\<close> with a pattern that has the \<open>g\<close> flag: \<open>exec\<close> is repeated from
  \<open>lastIndex\<close> 0 until it fails, and an empty match moves \<open>lastIndex\<close> on by one position
  (AdvanceStringIndex). Without the \<open>g\<close> flag \<open>match\<close> is a single \<open>exec\<close>.
\<close>

definition advance_string_index :: "bool \<Rightarrow> jsstring \<Rightarrow> nat \<Rightarrow> nat" where
  "advance_string_index u s i =
     (if u \<and> i + 1 < length s \<and> is_high_surrogate (s ! i) \<and> is_low_surrogate (s ! (i + 1))
      then i + 2 else i + 1)"

function match_loop :: "regexp \<Rightarrow> nat \<Rightarrow> jsstring \<Rightarrow> (nat \<times> nat) list" where
  "match_loop R li s =
     (case regexp_exec R li s of
        (None, li') \<Rightarrow> []
      | (Some (i, e), li') \<Rightarrow>
          (i, e) # (if global R
                    then match_loop R (if e = i then advance_string_index (unicode R) s li' else li') s
                    else []))"
  by pat_completeness auto
termination
  apply (relation "measure (\<lambda>(R, li, s). Suc (length s) - li)")
   apply simp
  subgoal for R li s x y x2 xa ya
    using regexp_exec_global [of R li s xa ya y]
    by (auto simp: advance_string_index_def)
  done

declare match_loop.simps [simp del]

definition str_match :: "jsstring \<Rightarrow> regexp \<Rightarrow> (nat \<times> nat) list" where
  "str_match s R =
     (if global R then match_loop R 0 s
      else (case fst (regexp_exec R 0 s) of None \<Rightarrow> [] | Some m \<Rightarrow> [m]))"

subsection \<open>Unfolding a search\<close>

text \<open>
  A pattern that starts with \<open>^\<close> can only match at index 0: at every later start
  position the anchor fails, so the search from index 0 is decided by one attempt.
\<close>

lemma rx_search_Bos_fail: "0 < fst x \<Longrightarrow> rx_search ic u (Seq Bos r) x = None"
proof (induction ic u "Seq Bos r" x rule: rx_search.induct)
  case (1 ic u x)
  have m: "rx_match ic (Seq Bos r) x = []"
    using "1.prems" by simp
  show ?case
  proof (cases "snd x = []")
    case True
    then show ?thesis using "1.prems" by (subst rx_search.simps) simp
  next
    case False
    from advance_later [OF False, of u] "1.prems" have "0 < fst (advance u x)"
      by (simp add: later_def)
    from "1.hyps" [OF m False this] False "1.prems" show ?thesis
      by (subst rx_search.simps) simp
  qed
qed

lemma rx_search_anchored:
  "rx_search ic u (Seq Bos r) (0, s) =
     (case rx_match ic r (0, s) of [] \<Rightarrow> None | y # ys \<Rightarrow> Some (0, fst y))"
proof (cases "rx_match ic r (0, s)")
  case Nil
  show ?thesis
  proof (cases "s = []")
    case True
    then show ?thesis using Nil by (subst rx_search.simps) simp
  next
    case False
    from advance_later [of "(0, s)" u] False have "0 < fst (advance u (0, s))"
      by (simp add: later_def)
    then have "rx_search ic u (Seq Bos r) (advance u (0, s)) = None"
      by (rule rx_search_Bos_fail)
    then show ?thesis using Nil False
      by (subst rx_search.simps) simp
  qed
next
  case (Cons y ys)
  then show ?thesis by (subst rx_search.simps) simp
qed

lemma rx_search_Chr:
  "rx_search ic u (Seq (Chr c) r) x =
     (case rx_match ic (Seq (Chr c) r) x of
        y # ys \<Rightarrow> Some (fst x, fst y)
      | [] \<Rightarrow> if snd x = [] then None else rx_search ic u (Seq (Chr c) r) (advance u x))"
  by (rule rx_search.simps)

lemma rx_search_UCls:
  "rx_search ic u (UCls p) x =
     (case rx_match ic (UCls p) x of
        y # ys \<Rightarrow> Some (fst x, fst y)
      | [] \<Rightarrow> if snd x = [] then None else rx_search ic u (UCls p) (advance u x))"
  by (rule rx_search.simps)

lemmas rx_eval = regexp_test_def regexp_exec_def rx_search_anchored rx_search_Chr rx_search_UCls
  star_iter.simps regex_def seqs_def words_def lit_def chars_def rep_numeral rep_upto_numeral
  Opt_def Plus_def ws_def non_ws_def word_char_def digit_def dot_def any_char_def chr_ok_def
  cls_ok_def canon_def uncanon_def in_ranges_def is_ws_def is_digit_def is_word_def
  is_line_terminator_def is_high_surrogate_def is_low_surrogate_def code_point_def Let_def

section \<open>The attention gate (index.ts)\<close>

text \<open>
  The Unicode property \<open>\p{Emoji}\<close> is a table of the JavaScript engine, not of the
  repository. Its ASCII part is the hash sign, the asterisk and the ten digits; the rest of
  the table is the parameter \<open>em\<close>, a predicate on the code points from 128 on.
\<close>

definition is_emoji :: "(nat \<Rightarrow> bool) \<Rightarrow> nat \<Rightarrow> bool" where
  "is_emoji em cp = (if cp < 128 then cp = 35 \<or> cp = 42 \<or> is_digit cp else em cp)"

text \<open>\<open>NOISE_PATTERNS\<close>, in the order of the source. None has the \<open>g\<close> flag.\<close>

definition NOISE_PATTERNS :: "(nat \<Rightarrow> bool) \<Rightarrow> regexp list" where
  "NOISE_PATTERNS em = [
     \<comment> \<open>Greetings and acknowledgments (exact match, with optional punctuation)\<close>
     regex (seqs [Bos,
        words [''hi'', ''hey'', ''hello'', ''yo'', ''sup'', ''ok'', ''okay'', ''sure'', ''thanks'',
          ''thank you'', ''thx'', ''ty'', ''yep'', ''yup'', ''nope'', ''no'', ''yes'', ''yeah'',
          ''cool'', ''nice'', ''great'', ''got it'', ''sounds good'', ''perfect'', ''alright'',
          ''fine'', ''noted'', ''ack'', ''kk'', ''k''],
        Star ws, Star (Cls (chars ''.!?'')), Eos]) True False False,
     \<comment> \<open>Two-word affirmations\<close>
     regex (seqs [Bos,
        words [''ok'', ''okay'', ''yes'', ''yeah'', ''yep'', ''sure'', ''no'', ''nope'', ''alright'',
          ''right'', ''fine'', ''cool'', ''nice'', ''great''],
        Plus ws,
        words [''great'', ''good'', ''sure'', ''thanks'', ''please'', ''ok'', ''fine'', ''cool'',
          ''yeah'', ''perfect'', ''noted'', ''absolutely'', ''definitely'', ''exactly''],
        Star ws, Star (Cls (chars ''.!?'')), Eos]) True False False,
     \<comment> \<open>Deictic: only pronouns, articles and common verbs\<close>
     regex (seqs [Bos,
        Opt (seqs [lit ''ok'', Opt (Cls (chars '',.'')), Plus ws]),
        Opt (seqs [lit ''i'', Opt (words ['''ll'', '''m'', '''d'', '''ve'']), Plus ws]),
        Opt (seqs [lit ''just'', Plus ws]),
        words [''need'', ''want'', ''got'', ''have'', ''let'', ''let's'', ''let me'', ''give me'',
          ''send'', ''do'', ''did'', ''try'', ''check'', ''see'', ''look at'', ''test'', ''take'',
          ''get'', ''go'', ''use''],
        Plus ws,
        words [''it'', ''that'', ''this'', ''those'', ''these'', ''them'', ''some'', ''one'', ''the'',
          ''a'', ''an'', ''me'', ''him'', ''her'', ''us''],
        Star ws,
        Opt (words [''out'', ''up'', ''now'', ''then'', ''too'', ''again'', ''later'', ''first'',
          ''here'', ''there'', ''please'']),
        Star ws, Star (Cls (chars ''.!?'')), Eos]) True False False,
     \<comment> \<open>Short acknowledgments with trailing context\<close>
     regex (seqs [Bos,
        words [''ok'', ''okay'', ''yes'', ''yeah'', ''yep'', ''sure'', ''no'', ''nope'', ''right'',
          ''alright'', ''fine'', ''cool'', ''nice'', ''great'', ''perfect''],
        Opt (Cls (chars '',.'')), Plus ws, rep_upto 20 dot, Eos]) True False False,
     \<comment> \<open>Conversational filler\<close>
     regex (seqs [Bos,
        alts [Seq (lit ''hm'') (Plus (lit ''m'')),
          words [''huh'', ''haha'', ''ha'', ''lol'', ''lmao'', ''rofl'', ''nah'', ''meh'', ''idk'',
            ''brb'', ''ttyl'', ''omg'', ''wow'', ''whoa'', ''welp'', ''oops'', ''ooh'', ''aah'',
            ''ugh'', ''bleh'', ''pfft'', ''smh'', ''ikr'', ''tbh'', ''imo'', ''fwiw'', ''np'', ''nvm'',
            ''nm'', ''wut'', ''wat'', ''wha'', ''heh'', ''tsk'', ''sigh'', ''yay''],
          Seq (lit ''wo'') (Plus (lit ''o'')),
          words [''boo'', ''dang'', ''darn'', ''geez'', ''gosh'', ''sheesh'', ''oof'']],
        Star ws, Star (Cls (chars ''.!?'')), Eos]) True False False,
     \<comment> \<open>Single-word or near-empty\<close>
     regex (seqs [Bos, rep_upto 3 non_ws, Eos]) False False False,
     \<comment> \<open>Pure emoji\<close>
     regex (seqs [Bos, Plus (UCls (\<lambda>cp. is_emoji em cp \<or> is_ws cp)), Eos]) False False True,
     \<comment> \<open>System/XML markup\<close>
     regex (seqs [Bos, lit ''<'', Plus (Cls [(97, 122), (45, 45)]), lit ''>'', Star any_char,
        lit ''</'', Plus (Cls [(97, 122), (45, 45)]), lit ''>'', Eos]) True False False,
     \<comment> \<open>Session reset prompts\<close>
     regex (seqs [Bos, lit ''A new session was started via'']) True False False,
     \<comment> \<open>Heartbeat prompts\<close>
     regex (lit ''Read HEARTBEAT.md if it exists'') True False False,
     \<comment> \<open>Pre-compaction flush prompts\<close>
     regex (seqs [Bos, lit ''Pre-compaction memory flush'']) True False False,
     \<comment> \<open>System timestamp messages\<close>
     regex (seqs [Bos, lit ''System:'', Star ws, lit ''['']) True False False,
     \<comment> \<open>Cron job wrappers\<close>
     regex (seqs [Bos, lit ''[cron:'', Plus (Cls [(48, 57), (97, 102), (45, 45)])]) True False False,
     \<comment> \<open>Gateway restart JSON payloads\<close>
     regex (seqs [Bos, lit ''GatewayRestart:'', Star ws, lit ''{'']) True False False,
     \<comment> \<open>Background task completion reports\<close>
     regex (seqs [Bos, lit ''['', rep 3 word_char, Plus ws, rep 4 digit, lit ''-'', rep 2 digit,
        lit ''-'', rep 2 digit, ws, Star dot, lit '']'', Star ws, lit ''A background task''])
       True False False]"

definition MAX_CAPTURE_CHARS :: nat where
  "MAX_CAPTURE_CHARS = 2000"

definition MIN_CAPTURE_CHARS :: nat where
  "MIN_CAPTURE_CHARS = 30"

definition MIN_WORD_COUNT :: nat where
  "MIN_WORD_COUNT = 5"

definition MAX_ASSISTANT_CAPTURE_CHARS :: nat where
  "MAX_ASSISTANT_CAPTURE_CHARS = 1000"

definition MIN_ASSISTANT_WORD_COUNT :: nat where
  "MIN_ASSISTANT_WORD_COUNT = 10"

text \<open>
  \<open>NOISE_PATTERNS.some((r) => r.test(trimmed))\<close>. The patterns are objects of the module,
  shared by every call, and \<open>test\<close> reads and writes \<open>lastIndex\<close> of a pattern with the
  \<open>g\<close> flag. The state \<open>st\<close> gives \<open>lastIndex\<close> of the pattern at each index of the array;
  \<open>some\<close> stops at the first pattern that matches.
\<close>

fun some_test :: "regexp list \<Rightarrow> nat \<Rightarrow> (nat \<Rightarrow> nat) \<Rightarrow> jsstring \<Rightarrow> bool \<times> (nat \<Rightarrow> nat)" where
  "some_test [] k st s = (False, st)"
| "some_test (R # Rs) k st s =
     (case regexp_test R (st k) s of
        (b, li') \<Rightarrow> if b then (True, st(k := li')) else some_test Rs (Suc k) (st(k := li')) s)"

text \<open>
  \<open>(trimmed.match(/[\u{1F300}-\u{1F9FF}]/gu) || []).length\<close>: the pattern is a literal of
  the function body, so each call has a new object with \<open>lastIndex\<close> 0.
\<close>

definition emojiRegex :: regexp where
  "emojiRegex = regex (UCls (\<lambda>cp. 127744 \<le> cp \<and> cp \<le> 129535)) False True True"

definition emojiCount :: "jsstring \<Rightarrow> nat" where
  "emojiCount trimmed = length (str_match trimmed emojiRegex)"

definition injected_context :: "jsstring \<Rightarrow> bool" where
  "injected_context trimmed =
     (str_includes trimmed (js ''<relevant-memories>'') \<or>
      str_includes trimmed (js ''<core-memory-refresh>''))"

definition passesAttentionGate ::
    "(nat \<Rightarrow> bool) \<Rightarrow> (nat \<Rightarrow> nat) \<Rightarrow> jsstring \<Rightarrow> bool \<times> (nat \<Rightarrow> nat)" where
  "passesAttentionGate em st text =
     (let trimmed = trim text in
      if length trimmed < MIN_CAPTURE_CHARS \<or> length trimmed > MAX_CAPTURE_CHARS then (False, st)
      else if length (split_ws trimmed) < MIN_WORD_COUNT then (False, st)
      else if injected_context trimmed then (False, st)
      else (case some_test (NOISE_PATTERNS em) 0 st trimmed of
              (noise, st') \<Rightarrow>
                if noise then (False, st')
                else if emojiCount trimmed > 3 then (False, st')
                else (True, st')))"

text \<open>
  The assistant gate sums the lengths of the fenced code blocks with a loop over
  \<open>codeBlockRegex.exec(trimmed)\<close>. The pattern has the \<open>g\<close> flag and is a literal of the
  function body, so the loop starts from \<open>lastIndex\<close> 0 and each \<open>exec\<close> continues after
  the previous match. The fence is three backquotes (code unit 96).
\<close>

definition codeBlockRegex :: regexp where
  "codeBlockRegex =
     regex (seqs [Chr 96, Chr 96, Chr 96, LazyStar any_char, Chr 96, Chr 96, Chr 96])
       False True False"

lemma codeBlock_consumes:
  "y \<in> set (rx_match ic (body codeBlockRegex) x) \<Longrightarrow> length (snd y) < length (snd x)"
proof -
  assume a: "y \<in> set (rx_match ic (body codeBlockRegex) x)"
  have b: "body codeBlockRegex =
      Seq (Chr 96) (seqs [Chr 96, Chr 96, LazyStar any_char, Chr 96, Chr 96, Chr 96])"
    by (simp add: codeBlockRegex_def regex_def seqs_def)
  from a obtain u where u: "u \<in> set (one_unit (chr_ok ic 96) x)"
    and t: "y \<in> set (rx_match ic
       (seqs [Chr 96, Chr 96, LazyStar any_char, Chr 96, Chr 96, Chr 96]) u)"
    unfolding b by auto
  from one_unit_later [OF u] rx_match_later [OF t] show ?thesis by (simp add: later_def)
qed

lemma codeBlock_exec:
  assumes "regexp_exec codeBlockRegex li s = (Some (i, e), li')"
  shows "li < li' \<and> li \<le> length s"
proof -
  have g: "global codeBlockRegex"
    by (simp add: codeBlockRegex_def regex_def)
  from regexp_exec_global [OF g assms]
  have b: "li \<le> i" "i \<le> e" "e \<le> length s" "li' = e" "li \<le> length s" by simp_all
  from assms b(5) have "rx_search (ignoreCase codeBlockRegex) (unicode codeBlockRegex)
      (body codeBlockRegex) (li, drop li s) = Some (i, e)"
    by (auto simp: regexp_exec_def Let_def g split: if_splits option.splits)
  from rx_search_progress [OF codeBlock_consumes this] have "i < e" by simp
  with b show ?thesis by simp
qed

function codeChars_loop :: "nat \<Rightarrow> jsstring \<Rightarrow> nat \<Rightarrow> nat" where
  "codeChars_loop li trimmed codeChars =
     (case regexp_exec codeBlockRegex li trimmed of
        (None, li') \<Rightarrow> codeChars
      | (Some (i, e), li') \<Rightarrow> codeChars_loop li' trimmed (codeChars + (e - i)))"
  by pat_completeness auto
termination
  apply (relation "measure (\<lambda>(li, s, c). Suc (length s) - li)")
   apply simp
  subgoal for li trimmed codeChars x y x2 xa ya
    using codeBlock_exec [of li trimmed xa ya y]
    by auto
  done

declare codeChars_loop.simps [simp del]

definition tool_markup :: "jsstring \<Rightarrow> bool" where
  "tool_markup trimmed =
     (str_includes trimmed (js ''<tool_result>'') \<or>
      str_includes trimmed (js ''<tool_use>'') \<or>
      str_includes trimmed (js ''<function_call>''))"

definition passesAssistantAttentionGate ::
    "(nat \<Rightarrow> bool) \<Rightarrow> (nat \<Rightarrow> nat) \<Rightarrow> jsstring \<Rightarrow> bool \<times> (nat \<Rightarrow> nat)" where
  "passesAssistantAttentionGate em st text =
     (let trimmed = trim text in
      if length trimmed < MIN_CAPTURE_CHARS \<or> length trimmed > MAX_ASSISTANT_CAPTURE_CHARS
      then (False, st)
      else if length (split_ws trimmed) < MIN_ASSISTANT_WORD_COUNT then (False, st)
      else if real (codeChars_loop 0 trimmed 0) > real (length trimmed) * 0.5 then (False, st)
      else if tool_markup trimmed then (False, st)
      else if injected_context trimmed then (False, st)
      else (case some_test (NOISE_PATTERNS em) 0 st trimmed of
              (noise, st') \<Rightarrow>
                if noise then (False, st')
                else if emojiCount trimmed > 3 then (False, st')
                else (True, st')))"

subsection \<open>The gate neither reads nor writes the state of the shared patterns\<close>

lemma regexp_test_not_global:
  "\<not> global R \<Longrightarrow> regexp_test R li s = (fst (regexp_test R 0 s), li)"
  by (simp add: regexp_test_def regexp_exec_def Let_def split: option.splits)

lemma some_test_not_global:
  "list_all (\<lambda>R. \<not> global R) Rs \<Longrightarrow>
   some_test Rs k st s = (list_ex (\<lambda>R. fst (regexp_test R 0 s)) Rs, st)"
proof (induction Rs arbitrary: k)
  case Nil
  show ?case by simp
next
  case (Cons R Rs)
  from Cons.prems have R: "\<not> global R" and Rs: "list_all (\<lambda>R. \<not> global R) Rs"
    by simp_all
  have t: "regexp_test R (st k) s = (fst (regexp_test R 0 s), st k)"
    using R by (rule regexp_test_not_global)
  show ?case
    using Cons.IH [OF Rs, of "Suc k"] by (simp add: t)
qed

lemma NOISE_PATTERNS_not_global: "list_all (\<lambda>R. \<not> global R) (NOISE_PATTERNS em)"
  by (simp add: NOISE_PATTERNS_def regex_def)

lemma some_test_NOISE_PATTERNS:
  "some_test (NOISE_PATTERNS em) k st s =
     (list_ex (\<lambda>R. fst (regexp_test R 0 s)) (NOISE_PATTERNS em), st)"
  using NOISE_PATTERNS_not_global by (rule some_test_not_global)

section \<open>The two example inputs of the gate\<close>

definition migrate_text :: jsstring where
  "migrate_text = js ''I think we should migrate the database to a managed service next quarter because of the licensing costs''"

lemma migrate_text_units:
  "migrate_text = [73, 32, 116, 104, 105, 110, 107, 32, 119, 101, 32, 115, 104, 111, 117, 108,
     100, 32, 109, 105, 103, 114, 97, 116, 101, 32, 116, 104, 101, 32, 100, 97, 116, 97, 98, 97,
     115, 101, 32, 116, 111, 32, 97, 32, 109, 97, 110, 97, 103, 101, 100, 32, 115, 101, 114, 118,
     105, 99, 101, 32, 110, 101, 120, 116, 32, 113, 117, 97, 114, 116, 101, 114, 32, 98, 101, 99,
     97, 117, 115, 101, 32, 111, 102, 32, 116, 104, 101, 32, 108, 105, 99, 101, 110, 115, 105,
     110, 103, 32, 99, 111, 115, 116, 115]"
  by (simp add: migrate_text_def js_def)

lemma migrate_text_trim: "trim migrate_text = migrate_text"
  unfolding migrate_text_units by (simp add: trim_def is_ws_def)

lemma migrate_text_length: "length migrate_text = 103"
  unfolding migrate_text_units by simp

lemma migrate_text_words: "length (split_ws migrate_text) = 18"
  unfolding migrate_text_units by (simp add: split_ws.simps is_ws_def)

lemma migrate_text_not_injected: "injected_context migrate_text = False"
  unfolding migrate_text_units by (simp add: injected_context_def js_def)

lemma migrate_text_no_noise:
  "list_ex (\<lambda>R. fst (regexp_test R 0 migrate_text)) (NOISE_PATTERNS em) = False"
  unfolding migrate_text_units NOISE_PATTERNS_def by (simp add: rx_eval is_emoji_def)

lemma migrate_text_emoji: "emojiCount migrate_text = 0"
  unfolding migrate_text_units
  by (simp add: emojiCount_def str_match_def emojiRegex_def match_loop.simps rx_eval)

lemma hi_trim: "trim (js ''hi'') = [104, 105]"
  by (simp add: js_def trim_def is_ws_def)

lemma hi_is_greeting: "fst (regexp_test (hd (NOISE_PATTERNS em)) 0 [104, 105]) = True"
  unfolding NOISE_PATTERNS_def by (simp add: rx_eval is_emoji_def)

text \<open>
  C3. The user gate rejects \<open>hi\<close> and accepts the sentence about the database migration,
  whatever the state of the shared patterns and whatever the engine's emoji table beyond
  ASCII. \<open>hi\<close> is the first alternative of the greeting pattern (and is already too
  short); the sentence is 103 code units long after trimming, which lies between the floor
  of 30 and the ceiling of 2000, has 18 words, which is at least 5, and matches none of the
  noise patterns.
\<close>

theorem attention_gate_examples:
  "fst (passesAttentionGate em st (js ''hi'')) = False \<and>
   fst (regexp_test (hd (NOISE_PATTERNS em)) 0 (trim (js ''hi''))) = True \<and>
   fst (passesAttentionGate em st migrate_text) = True \<and>
   MIN_CAPTURE_CHARS \<le> length (trim migrate_text) \<and>
   length (trim migrate_text) \<le> MAX_CAPTURE_CHARS \<and>
   MIN_WORD_COUNT \<le> length (split_ws (trim migrate_text)) \<and>
   list_ex (\<lambda>R. fst (regexp_test R 0 (trim migrate_text))) (NOISE_PATTERNS em) = False"
proof -
  have hi: "fst (passesAttentionGate em st (js ''hi'')) = False"
    by (simp add: passesAttentionGate_def hi_trim MIN_CAPTURE_CHARS_def)
  have ok: "fst (passesAttentionGate em st migrate_text) = True"
    by (simp add: passesAttentionGate_def migrate_text_trim migrate_text_length
        migrate_text_words migrate_text_not_injected some_test_NOISE_PATTERNS
        migrate_text_no_noise migrate_text_emoji MIN_CAPTURE_CHARS_def MAX_CAPTURE_CHARS_def
        MIN_WORD_COUNT_def)
  show ?thesis
    using hi ok hi_is_greeting [of em] migrate_text_no_noise [of em]
    by (simp add: hi_trim migrate_text_trim migrate_text_length migrate_text_words
        MIN_CAPTURE_CHARS_def MAX_CAPTURE_CHARS_def MIN_WORD_COUNT_def)
qed

text \<open>
  C7. Both gates are functions of the text alone. The only state a gate can reach is
  \<open>lastIndex\<close> of the shared patterns: the verdict is the same from every such state, the
  state is left as it was, and so a second evaluation on the same text returns the same
  verdict. The model has no other effect: the gates get no access to the store, the
  embedding provider or the log.
\<close>

theorem attention_gate_pure:
  "passesAttentionGate em st text = (fst (passesAttentionGate em st' text), st) \<and>
   passesAssistantAttentionGate em st text = (fst (passesAssistantAttentionGate em st' text), st) \<and>
   (case passesAttentionGate em st text of
      (b1, st1) \<Rightarrow> (case passesAttentionGate em st1 text of (b2, st2) \<Rightarrow> b1 = b2 \<and> st2 = st)) \<and>
   (case passesAssistantAttentionGate em st text of
      (b1, st1) \<Rightarrow> (case passesAssistantAttentionGate em st1 text of
         (b2, st2) \<Rightarrow> b1 = b2 \<and> st2 = st))"
proof -
  have u: "\<And>s s'. passesAttentionGate em s text = (fst (passesAttentionGate em s' text), s)"
    by (simp add: passesAttentionGate_def some_test_NOISE_PATTERNS Let_def)
  have a: "\<And>s s'. passesAssistantAttentionGate em s text =
      (fst (passesAssistantAttentionGate em s' text), s)"
    by (simp add: passesAssistantAttentionGate_def some_test_NOISE_PATTERNS Let_def)
  show ?thesis
    using u [of st st'] a [of st st'] u [of st st] a [of st st] by simp
qed

section \<open>Collaborators, effects and errors\<close>

text \<open>
  The plug-in talks to an embedding provider, to the Neo4j client, to the importance
  rater and to the host's logger and console. None of these is part of the sources, so
  each is an oracle of the environment: a function of the history of calls made so far
  and of the arguments, which answers with a value or throws. Every call is appended to
  the history, so the history is also the record of the I/O a function has performed.
\<close>

datatype err =
    ApiKeyRequired
  | ClientNotInitialized
  | OllamaFailed nat jsstring
  | NoEmbeddingReturned
  | TypeError
  | External nat

type_synonym vec = "number list"

datatype provider = OpenAI | Ollama

datatype memory_source = SourceUser | SourceAutoCapture | SourceAutoCaptureAssistant

datatype extraction_status = Pending | Skipped

record memory =
  m_id :: jsstring
  m_text :: jsstring
  m_embedding :: vec
  m_importance :: number
  m_category :: string
  m_source :: memory_source
  m_extractionStatus :: extraction_status
  m_agentId :: jsstring
  m_sessionKey :: "jsstring option"

record hit =
  h_id :: jsstring
  h_text :: jsstring
  h_category :: string
  h_score :: number

datatype openai_input = Single jsstring | Batch "jsstring list"

datatype fetch_result = Rejected err | NotOk nat jsstring | Json "vec list option"

record sleep_options =
  o_agentId :: "jsstring option"
  o_dedupThreshold :: "number option"
  o_paretoPercentile :: "number option"
  o_promotionMinAgeDays :: "number option"
  o_decayRetentionThreshold :: "number option"
  o_decayBaseHalfLifeDays :: "number option"
  o_extractionBatchSize :: "number option"
  o_extractionDelayMs :: "number option"

datatype sleep_result = SleepResult bool

datatype log_level = Debug | Info | Warn

datatype log_msg =
    TruncatedInput nat nat nat
  | OllamaItemFailed nat err
  | OllamaBatchFailed nat nat
  | AgentEndFired
  | AgentEndSkipped
  | AutoCaptureItemFailed err
  | AssistantAutoCaptureItemFailed err
  | AutoCaptured nat
  | AutoCaptureRan nat nat nat nat
  | AutoCaptureFailed err

datatype event =
    FetchOllama jsstring
  | OpenAICreate openai_input
  | Log log_level log_msg
  | FindSimilar vec number nat
  | VectorSearch vec nat number
  | StoreMemory memory
  | DeleteMemory jsstring
  | RandomUUID
  | RateImportance jsstring
  | EnsureInitialized
  | RunSleepCycle sleep_options
  | ConsoleLogBanner
  | ConsoleLogReport sleep_result
  | ConsoleError string
  | ConsoleErrorFailed err
  | SetExitCode nat

record 'm env =
  fetch_ollama :: "event list \<Rightarrow> jsstring \<Rightarrow> fetch_result"
  openai_create :: "event list \<Rightarrow> openai_input \<Rightarrow> err + (int \<times> vec) list"
  db_findSimilar :: "event list \<Rightarrow> vec \<Rightarrow> number \<Rightarrow> nat \<Rightarrow> err + hit list"
  db_vectorSearch :: "event list \<Rightarrow> vec \<Rightarrow> nat \<Rightarrow> number \<Rightarrow> err + hit list"
  db_storeMemory :: "event list \<Rightarrow> memory \<Rightarrow> err + unit"
  db_deleteMemory :: "event list \<Rightarrow> jsstring \<Rightarrow> err + bool"
  db_ensureInitialized :: "event list \<Rightarrow> err + unit"
  crypto_randomUUID :: "event list \<Rightarrow> jsstring"
  rateImportance :: "event list \<Rightarrow> jsstring \<Rightarrow> err + number"
  runSleepCycle :: "event list \<Rightarrow> sleep_options \<Rightarrow> err + sleep_result"
  extractUserMessages :: "'m list \<Rightarrow> err + jsstring list"
  extractAssistantMessages :: "'m list \<Rightarrow> err + jsstring list"

text \<open>
  A computation takes the history and returns a value or a thrown error, together with
  the history extended by the calls it made.
\<close>

type_synonym 'a io = "event list \<Rightarrow> (err + 'a) \<times> event list"

definition io_ret :: "'a \<Rightarrow> 'a io" where
  "io_ret x = (\<lambda>h. (Inr x, h))"

definition io_throw :: "err \<Rightarrow> 'a io" where
  "io_throw e = (\<lambda>h. (Inl e, h))"

definition io_bind :: "'a io \<Rightarrow> ('a \<Rightarrow> 'b io) \<Rightarrow> 'b io" where
  "io_bind m f = (\<lambda>h. case m h of (Inl e, h') \<Rightarrow> (Inl e, h') | (Inr x, h') \<Rightarrow> f x h')"

definition io_catch :: "'a io \<Rightarrow> (err \<Rightarrow> 'a io) \<Rightarrow> 'a io" where
  "io_catch m handler = (\<lambda>h. case m h of (Inl e, h') \<Rightarrow> handler e h' | (Inr x, h') \<Rightarrow> (Inr x, h'))"

definition io_emit :: "event \<Rightarrow> unit io" where
  "io_emit ev = (\<lambda>h. (Inr (), h @ [ev]))"

definition io_ask :: "event \<Rightarrow> (event list \<Rightarrow> err + 'a) \<Rightarrow> 'a io" where
  "io_ask ev oracle = (\<lambda>h. (oracle h, h @ [ev]))"

lemmas io_defs = io_ret_def io_throw_def io_bind_def io_catch_def io_emit_def io_ask_def

section \<open>Embeddings (embeddings.ts)\<close>

record embeddings =
  provider :: provider
  contextLength :: nat
  client :: bool

text \<open>
  The constructor: \<open>contextLength\<close> is what \<open>contextLengthForModel(model)\<close> of config.ts
  returns, a parameter here; the OpenAI client exists exactly when the provider is OpenAI,
  and then an API key is required (\<open>undefined\<close> and the empty string are both falsy).
\<close>

definition new_Embeddings :: "jsstring option \<Rightarrow> provider \<Rightarrow> nat \<Rightarrow> err + embeddings" where
  "new_Embeddings apiKey prov ctx =
     (if prov = OpenAI
      then (if apiKey = None \<or> apiKey = Some [] then Inl ApiKeyRequired
            else Inr \<lparr>provider = prov, contextLength = ctx, client = True\<rparr>)
      else Inr \<lparr>provider = prov, contextLength = ctx, client = False\<rparr>)"

lemma new_Embeddings_client:
  "new_Embeddings apiKey prov ctx = Inr emb \<Longrightarrow> provider emb = OpenAI \<longrightarrow> client emb"
  by (auto simp: new_Embeddings_def split: if_splits)

text \<open>\<open>s.lastIndexOf(c)\<close> for a single code unit: the last index of \<open>c\<close>, or -1.\<close>

fun lastIndexOf_from :: "nat \<Rightarrow> jsstring \<Rightarrow> nat \<Rightarrow> int" where
  "lastIndexOf_from k [] c = -1"
| "lastIndexOf_from k (x # xs) c =
     (let later = lastIndexOf_from (Suc k) xs c
      in if later \<noteq> -1 then later else if x = c then int k else -1)"

definition lastIndexOf :: "jsstring \<Rightarrow> nat \<Rightarrow> int" where
  "lastIndexOf s c = lastIndexOf_from 0 s c"

text \<open>
  \<open>truncateToContext\<close>. \<open>maxChars * 0.8\<close> is a product of doubles; for every
  \<open>maxChars\<close> below \<open>2^53\<close> the comparison with the integer \<open>lastSpace\<close> has the same
  outcome on the doubles as on the reals, which is what the model computes. The string
  that is returned is \<open>truncated_input\<close>; the function itself also writes the debug line
  when it cut something.
\<close>

definition truncated_input :: "nat \<Rightarrow> jsstring \<Rightarrow> jsstring" where
  "truncated_input ctx text =
     (let maxChars = ctx * 3 in
      if length text \<le> maxChars then text
      else (let truncated = take maxChars text;
                lastSpace = lastIndexOf truncated 32
            in if real_of_int lastSpace > real maxChars * 0.8
               then take (nat lastSpace) truncated else truncated))"

definition truncateToContext :: "embeddings \<Rightarrow> jsstring \<Rightarrow> jsstring io" where
  "truncateToContext emb text =
     (if length text \<le> contextLength emb * 3 then io_ret text
      else io_bind
        (io_emit (Log Debug (TruncatedInput (length text)
           (length (truncated_input (contextLength emb) text)) (contextLength emb))))
        (\<lambda>_. io_ret (truncated_input (contextLength emb) text)))"

definition embedOllama :: "'m env \<Rightarrow> jsstring \<Rightarrow> vec io" where
  "embedOllama env text =
     io_bind (io_ask (FetchOllama text) (\<lambda>h. Inr (fetch_ollama env h text)))
       (\<lambda>response. case response of
          Rejected e \<Rightarrow> io_throw e
        | NotOk status error \<Rightarrow> io_throw (OllamaFailed status error)
        | Json None \<Rightarrow> io_throw NoEmbeddingReturned
        | Json (Some []) \<Rightarrow> io_throw NoEmbeddingReturned
        | Json (Some (v # vs)) \<Rightarrow> io_ret v)"

definition embedOpenAI :: "'m env \<Rightarrow> embeddings \<Rightarrow> jsstring \<Rightarrow> vec io" where
  "embedOpenAI env emb text =
     (if \<not> client emb then io_throw ClientNotInitialized
      else io_bind (io_ask (OpenAICreate (Single text)) (\<lambda>h. openai_create env h (Single text)))
        (\<lambda>data. case data of [] \<Rightarrow> io_throw TypeError | d # ds \<Rightarrow> io_ret (snd d)))"

definition embedBatchOpenAI :: "'m env \<Rightarrow> embeddings \<Rightarrow> jsstring list \<Rightarrow> vec list io" where
  "embedBatchOpenAI env emb texts =
     (if \<not> client emb then io_throw ClientNotInitialized
      else io_bind (io_ask (OpenAICreate (Batch texts)) (\<lambda>h. openai_create env h (Batch texts)))
        (\<lambda>data. io_ret (map snd (sort_key fst data))))"

definition embed :: "'m env \<Rightarrow> embeddings \<Rightarrow> jsstring \<Rightarrow> vec io" where
  "embed env emb text =
     io_bind (truncateToContext emb text)
       (\<lambda>input. if provider emb = Ollama then embedOllama env input
                 else embedOpenAI env emb input)"

text \<open>\<open>texts.map((t) => this.truncateToContext(t))\<close>: one call after the other.\<close>

fun truncate_all :: "embeddings \<Rightarrow> jsstring list \<Rightarrow> jsstring list io" where
  "truncate_all emb [] = io_ret []"
| "truncate_all emb (t # ts) =
     io_bind (truncateToContext emb t)
       (\<lambda>x. io_bind (truncate_all emb ts) (\<lambda>xs. io_ret (x # xs)))"

text \<open>
  \<open>Promise.allSettled(truncated.map((t) => this.embedOllama(t)))\<close>: the requests are
  issued in the order of the list, and each settles to its value or to its error; the
  result has one entry for each input, at the same index, and never throws.
\<close>

fun allSettled :: "('a \<Rightarrow> 'b io) \<Rightarrow> 'a list \<Rightarrow> event list \<Rightarrow> (err + 'b) list \<times> event list" where
  "allSettled f [] h = ([], h)"
| "allSettled f (t # ts) h =
     (case f t h of (r, h') \<Rightarrow> (case allSettled f ts h' of (rs, h'') \<Rightarrow> (r # rs, h'')))"

text \<open>
  The loop over the settled results: a fulfilled entry is pushed, a rejected one is
  counted, logged with its index and replaced by the empty vector.
\<close>

fun collect_settled ::
    "nat \<Rightarrow> (err + vec) list \<Rightarrow> vec list \<Rightarrow> nat \<Rightarrow> event list \<Rightarrow> (vec list \<times> nat) \<times> event list" where
  "collect_settled i [] embeddings failures h = ((embeddings, failures), h)"
| "collect_settled i (Inr v # rs) embeddings failures h =
     collect_settled (Suc i) rs (embeddings @ [v]) failures h"
| "collect_settled i (Inl e # rs) embeddings failures h =
     collect_settled (Suc i) rs (embeddings @ [[]]) (Suc failures)
       (h @ [Log Warn (OllamaItemFailed i e)])"

definition embedBatch :: "'m env \<Rightarrow> embeddings \<Rightarrow> jsstring list \<Rightarrow> vec list io" where
  "embedBatch env emb texts =
     (if texts = [] then io_ret []
      else io_bind (truncate_all emb texts)
        (\<lambda>truncated.
           if provider emb = Ollama
           then (\<lambda>h. case allSettled (embedOllama env) truncated h of
                   (results, h1) \<Rightarrow>
                     (case collect_settled 0 results [] 0 h1 of
                        ((embeddings, failures), h2) \<Rightarrow>
                          (Inr embeddings,
                           if failures > 0
                           then h2 @ [Log Warn (OllamaBatchFailed failures (length texts))]
                           else h2)))
           else embedBatchOpenAI env emb truncated))"

subsection \<open>What the provider is sent\<close>

fun transmitted_of :: "event \<Rightarrow> jsstring list" where
  "transmitted_of (FetchOllama t) = [t]"
| "transmitted_of (OpenAICreate (Single t)) = [t]"
| "transmitted_of (OpenAICreate (Batch ts)) = ts"
| "transmitted_of _ = []"

definition transmitted :: "event list \<Rightarrow> jsstring list" where
  "transmitted h = concat (map transmitted_of h)"

definition at_word_boundary :: "jsstring \<Rightarrow> nat \<Rightarrow> bool" where
  "at_word_boundary text k =
     (k = 0 \<or> length text \<le> k \<or> is_ws (text ! (k - 1)) \<or> is_ws (text ! k))"

definition truncation_log :: "embeddings \<Rightarrow> jsstring \<Rightarrow> event list" where
  "truncation_log emb text =
     (if length text \<le> contextLength emb * 3 then []
      else [Log Debug (TruncatedInput (length text)
              (length (truncated_input (contextLength emb) text)) (contextLength emb))])"

definition settled_value :: "err + vec \<Rightarrow> vec" where
  "settled_value r = (case r of Inr v \<Rightarrow> v | Inl e \<Rightarrow> [])"

fun item_warnings :: "nat \<Rightarrow> (err + vec) list \<Rightarrow> event list" where
  "item_warnings i [] = []"
| "item_warnings i (Inr v # rs) = item_warnings (Suc i) rs"
| "item_warnings i (Inl e # rs) = Log Warn (OllamaItemFailed i e) # item_warnings (Suc i) rs"

lemma transmitted_append [simp]: "transmitted (h @ h') = transmitted h @ transmitted h'"
  by (simp add: transmitted_def)

lemma transmitted_Nil [simp]: "transmitted [] = []"
  by (simp add: transmitted_def)

lemma transmitted_Cons [simp]: "transmitted (e # h) = transmitted_of e @ transmitted h"
  by (simp add: transmitted_def)

lemma truncateToContext_run:
  "truncateToContext emb text h =
     (Inr (truncated_input (contextLength emb) text), h @ truncation_log emb text)"
  by (simp add: truncateToContext_def truncation_log_def truncated_input_def io_defs Let_def)

lemma truncate_all_run:
  "truncate_all emb texts h =
     (Inr (map (truncated_input (contextLength emb)) texts),
      h @ concat (map (truncation_log emb) texts))"
  by (induction texts arbitrary: h) (simp_all add: truncateToContext_run io_defs)

lemma transmitted_truncation_log [simp]: "transmitted (truncation_log emb text) = []"
  by (simp add: truncation_log_def)

lemma transmitted_truncation_logs [simp]:
  "transmitted (concat (map (truncation_log emb) texts)) = []"
  by (induction texts) simp_all

lemma embedOllama_history: "snd (embedOllama env t h) = h @ [FetchOllama t]"
  by (simp add: embedOllama_def io_defs split: fetch_result.splits option.splits list.splits)

lemma allSettled_length: "length (fst (allSettled f xs h)) = length xs"
  by (induction xs arbitrary: h) (simp_all add: case_prod_unfold)

lemma allSettled_nth:
  "i < length xs \<Longrightarrow>
   fst (allSettled f xs h) ! i = fst (f (xs ! i) (snd (allSettled f (take i xs) h)))"
proof (induction xs arbitrary: h i)
  case Nil
  then show ?case by simp
next
  case (Cons x xs)
  show ?case
  proof (cases i)
    case 0
    then show ?thesis by (simp add: case_prod_unfold)
  next
    case (Suc j)
    with Cons.prems have j: "j < length xs" by simp
    obtain r h' where f: "f x h = (r, h')" by (cases "f x h")
    from Cons.IH [OF j, of h'] Suc f show ?thesis
      by (simp add: case_prod_unfold)
  qed
qed

lemma allSettled_ollama_history:
  "snd (allSettled (embedOllama env) ts h) = h @ map FetchOllama ts"
proof (induction ts arbitrary: h)
  case Nil
  show ?case by simp
next
  case (Cons t ts)
  obtain r h' where f: "embedOllama env t h = (r, h')" by (cases "embedOllama env t h")
  with embedOllama_history [of env t h] have "h' = h @ [FetchOllama t]" by simp
  with Cons.IH [of h'] f show ?case by (simp add: case_prod_unfold)
qed

lemma collect_settled_run:
  "collect_settled i rs acc n h =
     ((acc @ map settled_value rs, n + length (filter isl rs)), h @ item_warnings i rs)"
  by (induction i rs acc n h rule: collect_settled.induct) (simp_all add: settled_value_def)

lemma transmitted_item_warnings [simp]: "transmitted (item_warnings i rs) = []"
  by (induction i rs rule: item_warnings.induct) simp_all

lemma transmitted_FetchOllama [simp]: "transmitted (map FetchOllama ts) = ts"
  by (induction ts) simp_all

lemma transmitted_FetchOllama_map [simp]: "transmitted (map (FetchOllama \<circ> f) ts) = map f ts"
  by (induction ts) simp_all


lemma lastIndexOf_from_cases:
  "lastIndexOf_from k s c = -1 \<or>
   (\<exists>j < length s. lastIndexOf_from k s c = int (k + j) \<and> s ! j = c)"
proof (induction s arbitrary: k)
  case Nil
  show ?case by simp
next
  case (Cons x xs)
  from Cons.IH [of "Suc k"] show ?case
  proof
    assume n: "lastIndexOf_from (Suc k) xs c = -1"
    show ?thesis
    proof (cases "x = c")
      case True
      then have "lastIndexOf_from k (x # xs) c = int (k + 0) \<and> (x # xs) ! 0 = c"
        using n by simp
      then show ?thesis by blast
    next
      case False
      then show ?thesis using n by simp
    qed
  next
    assume "\<exists>j < length xs. lastIndexOf_from (Suc k) xs c = int (Suc k + j) \<and> xs ! j = c"
    then obtain j where j: "j < length xs" "lastIndexOf_from (Suc k) xs c = int (Suc k + j)"
        "xs ! j = c"
      by blast
    then have "Suc j < length (x # xs) \<and> lastIndexOf_from k (x # xs) c = int (k + Suc j) \<and>
        (x # xs) ! Suc j = c"
      by (simp add: Let_def)
    then show ?thesis by blast
  qed
qed

lemma lastIndexOf_cases:
  "lastIndexOf s c = -1 \<or> (0 \<le> lastIndexOf s c \<and> nat (lastIndexOf s c) < length s \<and>
     s ! nat (lastIndexOf s c) = c)"
  using lastIndexOf_from_cases [of 0 s c] by (auto simp: lastIndexOf_def)

lemma lastIndexOf_absent: "c \<notin> set s \<Longrightarrow> lastIndexOf s c = -1"
  using lastIndexOf_cases [of s c] by (auto simp: in_set_conv_nth)

lemma embed_transmitted:
  "transmitted (snd (embed env emb text h)) =
     transmitted h @ (if provider emb = OpenAI \<and> \<not> client emb then []
                      else [truncated_input (contextLength emb) text])"
  by (cases "provider emb")
     (auto simp: embed_def embedOllama_def embedOpenAI_def truncateToContext_run io_defs
        split: fetch_result.splits option.splits list.splits sum.splits)

lemma embedBatch_transmitted:
  "transmitted (snd (embedBatch env emb texts h)) =
     transmitted h @ (if texts = [] \<or> (provider emb = OpenAI \<and> \<not> client emb) then []
                      else map (truncated_input (contextLength emb)) texts)"
  by (cases "provider emb")
     (auto simp: embedBatch_def embedBatchOpenAI_def truncate_all_run io_defs
        allSettled_ollama_history collect_settled_run case_prod_unfold
        split: sum.splits)

text \<open>
  C6, as amended. What \<open>embed\<close> and \<open>embedBatch\<close> send to the provider for an input is
  \<open>truncated_input\<close> of it: a prefix of the input of at most \<open>contextLength * 3\<close> code
  units, and the input itself when it is that short. When the input is longer, the cut is
  made just before the last space among the first \<open>contextLength * 3\<close> code units if that
  space lies beyond 80 percent of them, and then the string sent ends at a word boundary;
  otherwise the string sent is exactly the first \<open>contextLength * 3\<close> code units, wherever
  that falls. (Nothing is sent by an OpenAI object without a client, and nothing for an empty
  batch.)
\<close>

theorem truncated_input_spec:
  "(\<exists>k. k \<le> ctx * 3 \<and> truncated_input ctx input = take k input) \<and>
   length (truncated_input ctx input) \<le> ctx * 3 \<and>
   (length input \<le> ctx * 3 \<longrightarrow> truncated_input ctx input = input) \<and>
   (ctx * 3 < length input \<longrightarrow>
      (if real_of_int (lastIndexOf (take (ctx * 3) input) 32) > real (ctx * 3) * 0.8
       then truncated_input ctx input = take (nat (lastIndexOf (take (ctx * 3) input) 32)) input \<and>
            input ! length (truncated_input ctx input) = 32 \<and>
            at_word_boundary input (length (truncated_input ctx input))
       else truncated_input ctx input = take (ctx * 3) input)) \<and>
   transmitted (snd (embed env emb input h)) =
     transmitted h @ (if provider emb = OpenAI \<and> \<not> client emb then []
                      else [truncated_input (contextLength emb) input]) \<and>
   transmitted (snd (embedBatch env emb texts h)) =
     transmitted h @ (if texts = [] \<or> (provider emb = OpenAI \<and> \<not> client emb) then []
                      else map (truncated_input (contextLength emb)) texts)"
proof -
  let ?m = "ctx * 3"
  let ?ls = "lastIndexOf (take ?m input) 32"
  have cut: "ctx * 3 < length input \<Longrightarrow> real_of_int ?ls > real ?m * 0.8 \<Longrightarrow>
      truncated_input ctx input = take (nat ?ls) input \<and> nat ?ls < ?m \<and> input ! nat ?ls = 32"
  proof -
    assume long: "ctx * 3 < length input" and far: "real_of_int ?ls > real ?m * 0.8"
    from far have "?ls \<noteq> -1" by auto
    with lastIndexOf_cases [of "take ?m input" 32]
    have b: "0 \<le> ?ls" "nat ?ls < length (take ?m input)" "take ?m input ! nat ?ls = 32"
      by auto
    from b(2) long have lt: "nat ?ls < ?m" by simp
    with b(3) have "input ! nat ?ls = 32" by simp
    moreover have "take (nat ?ls) (take ?m input) = take (nat ?ls) input"
      using lt by (simp add: min_def)
    ultimately show ?thesis
      using long far lt by (simp add: truncated_input_def Let_def)
  qed
  have p1: "\<exists>k. k \<le> ctx * 3 \<and> truncated_input ctx input = take k input"
  proof (cases "length input \<le> ?m")
    case True
    then have "length input \<le> ?m \<and> truncated_input ctx input = take (length input) input"
      by (simp add: truncated_input_def)
    then show ?thesis by blast
  next
    case False
    show ?thesis
    proof (cases "real_of_int ?ls > real ?m * 0.8")
      case True
      with cut False have "nat ?ls \<le> ?m \<and> truncated_input ctx input = take (nat ?ls) input"
        by simp
      then show ?thesis by blast
    next
      case f: False
      with False have "?m \<le> ?m \<and> truncated_input ctx input = take ?m input"
        by (simp add: truncated_input_def Let_def)
      then show ?thesis by blast
    qed
  qed
  then have p2: "length (truncated_input ctx input) \<le> ctx * 3"
    by auto
  have p3: "length input \<le> ctx * 3 \<longrightarrow> truncated_input ctx input = input"
    by (simp add: truncated_input_def)
  have p4: "ctx * 3 < length input \<longrightarrow>
      (if real_of_int ?ls > real ?m * 0.8
       then truncated_input ctx input = take (nat ?ls) input \<and>
            input ! length (truncated_input ctx input) = 32 \<and>
            at_word_boundary input (length (truncated_input ctx input))
       else truncated_input ctx input = take ?m input)"
  proof
    assume long: "ctx * 3 < length input"
    show "if real_of_int ?ls > real ?m * 0.8
       then truncated_input ctx input = take (nat ?ls) input \<and>
            input ! length (truncated_input ctx input) = 32 \<and>
            at_word_boundary input (length (truncated_input ctx input))
       else truncated_input ctx input = take ?m input"
    proof (cases "real_of_int ?ls > real ?m * 0.8")
      case True
      from cut [OF long True] long
      have c: "truncated_input ctx input = take (nat ?ls) input" "nat ?ls < ?m" "input ! nat ?ls = 32"
        by simp_all
      from c(2) long have "length (take (nat ?ls) input) = nat ?ls" by simp
      with c True show ?thesis by (simp add: at_word_boundary_def is_ws_def)
    next
      case False
      with long show ?thesis by (simp add: truncated_input_def Let_def)
    qed
  qed
  show ?thesis
    using p1 p2 p3 p4 embed_transmitted [of env emb input h]
      embedBatch_transmitted [of env emb texts h]
    by blast
qed


text \<open>Concrete environments and objects for evaluating the model.\<close>

definition env0 :: "unit env" where
  "env0 = \<lparr>
     fetch_ollama = (\<lambda>h t. Json (Some [[Num (real (length t))]])),
     openai_create = (\<lambda>h i. Inr []),
     db_findSimilar = (\<lambda>h v t n. Inr []),
     db_vectorSearch = (\<lambda>h v n t. Inr []),
     db_storeMemory = (\<lambda>h m. Inr ()),
     db_deleteMemory = (\<lambda>h i. Inr True),
     db_ensureInitialized = (\<lambda>h. Inr ()),
     crypto_randomUUID = (\<lambda>h. replicate (Suc (length h)) 120),
     rateImportance = (\<lambda>h t. Inr (Num 0.5)),
     runSleepCycle = (\<lambda>h opts. Inr (SleepResult False)),
     extractUserMessages = (\<lambda>ms. Inr []),
     extractAssistantMessages = (\<lambda>ms. Inr [])\<rparr>"

definition ollama512 :: embeddings where
  "ollama512 = \<lparr>provider = Ollama, contextLength = 512, client = False\<rparr>"

definition ollama4 :: embeddings where
  "ollama4 = \<lparr>provider = Ollama, contextLength = 4, client = False\<rparr>"

definition openai4 :: embeddings where
  "openai4 = \<lparr>provider = OpenAI, contextLength = 4, client = True\<rparr>"

theorem truncated_input_witness:
  "4 * 3 < length (js ''hello brave new world'') \<and>
   truncated_input 4 (js ''hello brave new world'') = js ''hello brave'' \<and>
   js ''hello brave new world'' ! 11 = 32 \<and>
   truncated_input 4 (js ''short text'') = js ''short text'' \<and>
   transmitted (snd (embed env0 ollama4 (js ''hello brave new world'') [])) = [js ''hello brave''] \<and>
   transmitted (snd (embedBatch env0 ollama4 [js ''hello brave new world'', js ''short text''] []))
     = [js ''hello brave'', js ''short text'']"
  using truncated_input_spec [where ctx = 4 and input = "js ''hello brave new world''"
      and env = env0 and emb = ollama4 and h = "[]"
      and texts = "[js ''hello brave new world'', js ''short text'']"]
    truncated_input_spec [where ctx = 4 and input = "js ''short text''"
      and env = env0 and emb = ollama4 and h = "[]" and texts = "[]"]
  by (simp add: js_def lastIndexOf_def ollama4_def Let_def)

theorem truncation_inside_word_counterexample:
  "512 * 3 < length (replicate 2000 (97::nat)) \<and>
   truncated_input 512 (replicate 2000 97) = replicate 1536 97 \<and>
   at_word_boundary (replicate 2000 97) (length (truncated_input 512 (replicate 2000 97))) = False"
proof -
  have "lastIndexOf (replicate 1536 (97::nat)) 32 = -1"
    by (rule lastIndexOf_absent) simp
  then have t: "truncated_input 512 (replicate 2000 97) = replicate 1536 97"
    by (simp add: truncated_input_def Let_def)
  show ?thesis
    by (simp add: t at_word_boundary_def is_ws_def)
qed


definition ollama_request :: "'m env \<Rightarrow> embeddings \<Rightarrow> jsstring list \<Rightarrow> event list \<Rightarrow> nat \<Rightarrow> err + vec" where
  "ollama_request env emb texts h i =
     fst (embedOllama env (truncated_input (contextLength emb) (texts ! i))
       (h @ concat (map (truncation_log emb) texts) @
        map (\<lambda>t. FetchOllama (truncated_input (contextLength emb) t)) (take i texts)))"

lemma allSettled_ollama_requests:
  "fst (allSettled (embedOllama env) (map (truncated_input (contextLength emb)) texts)
        (h @ concat (map (truncation_log emb) texts)))
   = map (ollama_request env emb texts h) [0..<length texts]"
proof (rule nth_equalityI)
  show "length (fst (allSettled (embedOllama env) (map (truncated_input (contextLength emb)) texts)
        (h @ concat (map (truncation_log emb) texts))))
      = length (map (ollama_request env emb texts h) [0..<length texts])"
    by (simp add: allSettled_length)
next
  fix i
  assume "i < length (fst (allSettled (embedOllama env)
      (map (truncated_input (contextLength emb)) texts)
      (h @ concat (map (truncation_log emb) texts))))"
  then have i: "i < length texts" by (simp add: allSettled_length)
  then have "i < length (map (truncated_input (contextLength emb)) texts)" by simp
  from allSettled_nth [OF this, of "embedOllama env" "h @ concat (map (truncation_log emb) texts)"] i
  show "fst (allSettled (embedOllama env) (map (truncated_input (contextLength emb)) texts)
        (h @ concat (map (truncation_log emb) texts))) ! i
      = map (ollama_request env emb texts h) [0..<length texts] ! i"
    by (simp add: ollama_request_def allSettled_ollama_history take_map comp_def)
qed

lemma embedBatch_ollama_run:
  assumes "provider emb = Ollama" and "texts \<noteq> []"
  shows "embedBatch env emb texts h =
     (Inr (map settled_value (map (ollama_request env emb texts h) [0..<length texts])),
      h @ concat (map (truncation_log emb) texts) @
      map FetchOllama (map (truncated_input (contextLength emb)) texts) @
      item_warnings 0 (map (ollama_request env emb texts h) [0..<length texts]) @
      (if 0 < length (filter isl (map (ollama_request env emb texts h) [0..<length texts]))
       then [Log Warn (OllamaBatchFailed
               (length (filter isl (map (ollama_request env emb texts h) [0..<length texts])))
               (length texts))]
       else []))"
proof -
  let ?tr = "map (truncated_input (contextLength emb)) texts"
  let ?h1 = "h @ concat (map (truncation_log emb) texts)"
  have a: "allSettled (embedOllama env) ?tr ?h1 =
      (map (ollama_request env emb texts h) [0..<length texts], ?h1 @ map FetchOllama ?tr)"
    using allSettled_ollama_requests [of env emb texts h]
      allSettled_ollama_history [of env ?tr ?h1]
    by (simp add: prod_eq_iff)
  show ?thesis
    using assms
    by (simp add: embedBatch_def truncate_all_run io_defs a collect_settled_run filter_map)
qed

text \<open>
  The warnings a history holds, and the warning the loop over the settled results writes
  for the entry at index \<open>i\<close>.
\<close>

fun warning_of :: "event \<Rightarrow> log_msg list" where
  "warning_of (Log Warn m) = [m]"
| "warning_of _ = []"

definition warnings :: "event list \<Rightarrow> log_msg list" where
  "warnings h = concat (map warning_of h)"

definition item_failure :: "nat \<Rightarrow> err + vec \<Rightarrow> log_msg list" where
  "item_failure i r = (case r of Inl e \<Rightarrow> [OllamaItemFailed i e] | Inr v \<Rightarrow> [])"

text \<open>
  What the OpenAI client answers to the one request of a batch, made after the inputs
  were truncated.
\<close>

definition openai_response :: "'m env \<Rightarrow> embeddings \<Rightarrow> jsstring list \<Rightarrow> event list \<Rightarrow> err + (int \<times> vec) list" where
  "openai_response env emb texts h =
     openai_create env (h @ concat (map (truncation_log emb) texts))
       (Batch (map (truncated_input (contextLength emb)) texts))"

lemma warnings_simps [simp]:
  "warnings [] = []" "warnings (e # h) = warning_of e @ warnings h"
  "warnings (h @ h') = warnings h @ warnings h'"
  by (simp_all add: warnings_def)

lemma warnings_truncation_logs [simp]:
  "warnings (concat (map (truncation_log emb) texts)) = []"
  by (induction texts) (simp_all add: truncation_log_def)

lemma warnings_FetchOllama [simp]: "warnings (map FetchOllama ts) = []"
  by (induction ts) simp_all

lemma warnings_FetchOllama_map [simp]: "warnings (map (FetchOllama \<circ> f) ts) = []"
  by (induction ts) simp_all

lemma warnings_item_warnings_enum:
  "warnings (item_warnings i rs) = concat (map (\<lambda>(k, r). item_failure k r) (enumerate i rs))"
  by (induction i rs rule: item_warnings.induct) (simp_all add: item_failure_def)

lemma enumerate_map_upt: "enumerate 0 (map f [0..<n]) = map (\<lambda>k. (k, f k)) [0..<n]"
  by (simp add: enumerate_eq_zip zip_map2 zip_same_conv_map)

lemma warnings_item_warnings:
  "warnings (item_warnings 0 (map f [0..<n])) = concat (map (\<lambda>k. item_failure k (f k)) [0..<n])"
  by (simp add: warnings_item_warnings_enum enumerate_map_upt comp_def)

text \<open>
  \<open>toSorted((a, b) => a.index - b.index)\<close> on a response that has one entry for each index
  below \<open>n\<close>: the entry with index \<open>i\<close> comes to position \<open>i\<close>.
\<close>

lemma sorted_data:
  assumes "distinct (map fst data)" and "set (map fst data) = set (map int [0..<n])"
  shows "map fst (sort_key fst data) = map int [0..<n]"
proof (rule sorted_distinct_set_unique)
  show "sorted (map fst (sort_key fst data))" by simp
  show "distinct (map fst (sort_key fst data))"
    using assms(1) by (simp add: distinct_map)
  show "sorted (map int [0..<n])"
    by (simp add: sorted_map sorted_wrt_map)
  show "distinct (map int [0..<n])" by (simp add: distinct_map)
  show "set (map fst (sort_key fst data)) = set (map int [0..<n])"
    using assms(2) by simp
qed

lemma sorted_data_length:
  assumes "distinct (map fst data)" and "set (map fst data) = set (map int [0..<n])"
  shows "length data = n"
  using sorted_data [OF assms] length_map [of fst "sort_key fst data"] by simp

lemma sorted_data_nth:
  assumes "distinct (map fst data)" and "set (map fst data) = set (map int [0..<n])"
    and "d \<in> set data"
  shows "length (sort_key fst data) = n \<and> map snd (sort_key fst data) ! nat (fst d) = snd d"
proof -
  note s = sorted_data [OF assms(1,2)]
  from s have l: "length (sort_key fst data) = n"
    using length_map [of fst "sort_key fst data"] by simp
  from assms(3) have "d \<in> set (sort_key fst data)" by simp
  then obtain j where "j < length (sort_key fst data)" "sort_key fst data ! j = d"
    unfolding in_set_conv_nth by blast
  with l have j: "j < n" "sort_key fst data ! j = d" by simp_all
  have "fst (sort_key fst data ! j) = map fst (sort_key fst data) ! j"
    using j(1) l by simp
  also have "\<dots> = int j" using j(1) by (simp add: s)
  finally have "nat (fst d) = j" using j(2) by simp
  with j l show ?thesis by simp
qed

lemma embedBatch_openai_run:
  assumes "provider emb = OpenAI" and "texts \<noteq> []" and "client emb"
  shows "embedBatch env emb texts h =
     (case openai_response env emb texts h of
        Inl e \<Rightarrow> Inl e
      | Inr data \<Rightarrow> Inr (map snd (sort_key fst data)),
      h @ concat (map (truncation_log emb) texts) @
      [OpenAICreate (Batch (map (truncated_input (contextLength emb)) texts))])"
  using assms
  by (simp add: embedBatch_def embedBatchOpenAI_def truncate_all_run io_defs openai_response_def
      split: sum.splits)

text \<open>
  C2, as amended. With the Ollama provider \<open>embedBatch\<close> never throws: it returns one
  vector for each input text, at the index of that text, which is the embedding the
  request for that text returned, or the empty vector when that request failed; the
  warnings it writes are one line for each failed request, with its index and its error,
  in the order of the texts, and then, when some request failed, the line that reports
  how many of how many. With the OpenAI provider a batch that is not empty is one request.
  Without a client, or when the request fails, the error is thrown to the caller for the
  whole batch. When the request succeeds, the result has one vector for each entry of the
  response; and for a response with exactly one entry for each index below the number of
  texts, in any order, it has the length of the input and the embedding with index \<open>i\<close>
  is at position \<open>i\<close>.
\<close>

theorem embedBatch_spec:
  "(provider emb = Ollama \<longrightarrow>
      (\<exists>vs. fst (embedBatch env emb texts h) = Inr vs \<and> length vs = length texts \<and>
         (\<forall>i<length texts. vs ! i = settled_value (ollama_request env emb texts h i)) \<and>
         warnings (drop (length h) (snd (embedBatch env emb texts h))) =
           concat (map (\<lambda>i. item_failure i (ollama_request env emb texts h i)) [0..<length texts]) @
           (if filter (\<lambda>i. isl (ollama_request env emb texts h i)) [0..<length texts] = [] then []
            else [OllamaBatchFailed
                    (length (filter (\<lambda>i. isl (ollama_request env emb texts h i)) [0..<length texts]))
                    (length texts)]))) \<and>
   (provider emb = OpenAI \<longrightarrow>
      (texts = [] \<longrightarrow> embedBatch env emb texts h = (Inr [], h)) \<and>
      (texts \<noteq> [] \<and> \<not> client emb \<longrightarrow>
         fst (embedBatch env emb texts h) = Inl ClientNotInitialized) \<and>
      (texts \<noteq> [] \<and> client emb \<longrightarrow>
         snd (embedBatch env emb texts h) =
           h @ concat (map (truncation_log emb) texts) @
           [OpenAICreate (Batch (map (truncated_input (contextLength emb)) texts))] \<and>
         (\<forall>e. openai_response env emb texts h = Inl e \<longrightarrow>
            fst (embedBatch env emb texts h) = Inl e) \<and>
         (\<forall>data. openai_response env emb texts h = Inr data \<longrightarrow>
            (\<exists>vs. fst (embedBatch env emb texts h) = Inr vs \<and> length vs = length data \<and>
               (distinct (map fst data) \<and>
                set (map fst data) = set (map int [0..<length texts]) \<longrightarrow>
                  length vs = length texts \<and>
                  (\<forall>d \<in> set data. vs ! nat (fst d) = snd d))))))"
proof (intro conjI impI)
  assume o: "provider emb = Ollama"
  let ?rs = "map (ollama_request env emb texts h) [0..<length texts]"
  let ?failed = "filter (\<lambda>i. isl (ollama_request env emb texts h i)) [0..<length texts]"
  have f: "length (filter isl ?rs) = length ?failed"
    by (simp add: filter_map comp_def)
  show "\<exists>vs. fst (embedBatch env emb texts h) = Inr vs \<and> length vs = length texts \<and>
         (\<forall>i<length texts. vs ! i = settled_value (ollama_request env emb texts h i)) \<and>
         warnings (drop (length h) (snd (embedBatch env emb texts h))) =
           concat (map (\<lambda>i. item_failure i (ollama_request env emb texts h i)) [0..<length texts]) @
           (if ?failed = [] then []
            else [OllamaBatchFailed (length ?failed) (length texts)])"
  proof (cases "texts = []")
    case True
    then show ?thesis by (simp add: embedBatch_def io_defs)
  next
    case False
    note run = embedBatch_ollama_run [OF o False, of env h]
    have "fst (embedBatch env emb texts h) = Inr (map settled_value ?rs) \<and>
        length (map settled_value ?rs) = length texts \<and>
        (\<forall>i<length texts. map settled_value ?rs ! i
            = settled_value (ollama_request env emb texts h i)) \<and>
        warnings (drop (length h) (snd (embedBatch env emb texts h))) =
           concat (map (\<lambda>i. item_failure i (ollama_request env emb texts h i)) [0..<length texts]) @
           (if ?failed = [] then []
            else [OllamaBatchFailed (length ?failed) (length texts)])"
      unfolding run f by (simp add: warnings_item_warnings)
    then show ?thesis by blast
  qed
next
  assume "provider emb = OpenAI" and "texts = []"
  then show "embedBatch env emb texts h = (Inr [], h)"
    by (simp add: embedBatch_def io_defs)
next
  assume "provider emb = OpenAI" and "texts \<noteq> [] \<and> \<not> client emb"
  then show "fst (embedBatch env emb texts h) = Inl ClientNotInitialized"
    by (simp add: embedBatch_def embedBatchOpenAI_def truncate_all_run io_defs)
next
  assume p: "provider emb = OpenAI" and c: "texts \<noteq> [] \<and> client emb"
  then show "snd (embedBatch env emb texts h) =
      h @ concat (map (truncation_log emb) texts) @
      [OpenAICreate (Batch (map (truncated_input (contextLength emb)) texts))]"
    by (simp add: embedBatch_openai_run)
next
  assume p: "provider emb = OpenAI" and c: "texts \<noteq> [] \<and> client emb"
  then show "\<forall>e. openai_response env emb texts h = Inl e \<longrightarrow>
      fst (embedBatch env emb texts h) = Inl e"
    by (simp add: embedBatch_openai_run)
next
  assume p: "provider emb = OpenAI" and c: "texts \<noteq> [] \<and> client emb"
  show "\<forall>data. openai_response env emb texts h = Inr data \<longrightarrow>
      (\<exists>vs. fst (embedBatch env emb texts h) = Inr vs \<and> length vs = length data \<and>
         (distinct (map fst data) \<and> set (map fst data) = set (map int [0..<length texts]) \<longrightarrow>
            length vs = length texts \<and> (\<forall>d \<in> set data. vs ! nat (fst d) = snd d)))"
  proof (intro allI impI)
    fix data
    assume r: "openai_response env emb texts h = Inr data"
    have v: "fst (embedBatch env emb texts h) = Inr (map snd (sort_key fst data))"
      using p c r by (simp add: embedBatch_openai_run)
    have "distinct (map fst data) \<and> set (map fst data) = set (map int [0..<length texts]) \<longrightarrow>
        length (map snd (sort_key fst data)) = length texts \<and>
        (\<forall>d \<in> set data. map snd (sort_key fst data) ! nat (fst d) = snd d)"
      using sorted_data_nth [of data "length texts"] sorted_data_length [of data "length texts"]
      by simp
    with v show "\<exists>vs. fst (embedBatch env emb texts h) = Inr vs \<and> length vs = length data \<and>
         (distinct (map fst data) \<and> set (map fst data) = set (map int [0..<length texts]) \<longrightarrow>
            length vs = length texts \<and> (\<forall>d \<in> set data. vs ! nat (fst d) = snd d))"
      by simp
  qed
qed

definition env_ollama_flaky :: "unit env" where
  "env_ollama_flaky = env0\<lparr>fetch_ollama :=
     (\<lambda>h t. if t = js ''b'' then NotOk 500 (js ''busy'') else Json (Some [[Num (real (length h))]]))\<rparr>"

text \<open>An OpenAI client that answers a batch with its entries in reverse order.\<close>

definition env_openai_unordered :: "unit env" where
  "env_openai_unordered = env0\<lparr>openai_create :=
     (\<lambda>h i. case i of
        Single t \<Rightarrow> Inr [(0, [Num (real (length t))])]
      | Batch ts \<Rightarrow> Inr (rev (map (\<lambda>k. (int k, [Num (real (length (ts ! k)))])) [0..<length ts])))\<rparr>"

definition env_openai_down :: "unit env" where
  "env_openai_down = env0\<lparr>openai_create := (\<lambda>h i. Inl (External 503))\<rparr>"

theorem embedBatch_witness:
  "provider ollama4 = Ollama \<and>
   fst (embedBatch env_ollama_flaky ollama4 [js ''a'', js ''b'', js ''c''] [])
     = Inr [[Num 0], [], [Num 2]] \<and>
   warnings (snd (embedBatch env_ollama_flaky ollama4 [js ''a'', js ''b'', js ''c''] []))
     = [OllamaItemFailed 1 (OllamaFailed 500 (js ''busy'')), OllamaBatchFailed 1 3] \<and>
   provider openai4 = OpenAI \<and> client openai4 \<and>
   openai_response env_openai_unordered openai4 [js ''a'', js ''bb'', js ''ccc''] []
     = Inr [(2, [Num 3]), (1, [Num 2]), (0, [Num 1])] \<and>
   fst (embedBatch env_openai_unordered openai4 [js ''a'', js ''bb'', js ''ccc''] [])
     = Inr [[Num 1], [Num 2], [Num 3]] \<and>
   snd (embedBatch env_openai_unordered openai4 [js ''a'', js ''bb'', js ''ccc''] [])
     = [OpenAICreate (Batch [js ''a'', js ''bb'', js ''ccc''])]"
  using embedBatch_spec [of ollama4 env_ollama_flaky "[js ''a'', js ''b'', js ''c'']" "[]"]
    embedBatch_spec [of openai4 env_openai_unordered "[js ''a'', js ''bb'', js ''ccc'']" "[]"]
  by (simp add: embedBatch_def embedBatchOpenAI_def embedOllama_def io_defs ollama4_def openai4_def
      env_ollama_flaky_def env_openai_unordered_def openai_response_def env0_def
      truncateToContext_def truncated_input_def truncation_log_def js_def upt_rec
      ollama_request_def settled_value_def item_failure_def)

theorem embedBatch_openai_counterexample:
  "provider openai4 = OpenAI \<and>
   fst (embedBatch env_openai_down openai4 [js ''a'', js ''b''] []) = Inl (External 503)"
  by (simp add: embedBatch_def embedBatchOpenAI_def io_defs openai4_def env_openai_down_def
      env0_def truncateToContext_def js_def)

section \<open>The tools of the plug-in (index.ts)\<close>

record plugin =
  pl_embeddings :: embeddings
  pl_extractionEnabled :: bool

record plugin_ctx =
  ctx_agentId :: "jsstring option"
  ctx_sessionKey :: "jsstring option"

text \<open>JavaScript truthiness of an optional string: \<open>undefined\<close> and the empty string are falsy.\<close>

definition truthy :: "jsstring option \<Rightarrow> bool" where
  "truthy s = (s \<noteq> None \<and> s \<noteq> Some [])"

definition agentId_of :: "plugin_ctx \<Rightarrow> jsstring" where
  "agentId_of ctx = (if truthy (ctx_agentId ctx) then the (ctx_agentId ctx) else js ''default'')"

definition extractionStatus_of :: "plugin \<Rightarrow> extraction_status" where
  "extractionStatus_of pl = (if pl_extractionEnabled pl then Pending else Skipped)"

text \<open>
  A tool returns \<open>content\<close>, a message for the reader built from the same values, and
  \<open>details\<close>; the model keeps \<open>details\<close>.
\<close>

record store_params =
  p_text :: jsstring
  p_importance :: "number option"
  p_category :: "string option"

datatype store_details = Duplicate jsstring jsstring | Created jsstring

definition new_memory :: "plugin \<Rightarrow> plugin_ctx \<Rightarrow> store_params \<Rightarrow> vec \<Rightarrow> jsstring \<Rightarrow> memory" where
  "new_memory pl ctx params vector memoryId = \<lparr>
     m_id = memoryId,
     m_text = p_text params,
     m_embedding = vector,
     m_importance = Math_min (Num 1) (Math_max (Num 0)
        (case p_importance params of None \<Rightarrow> Num 0.7 | Some x \<Rightarrow> x)),
     m_category = (case p_category params of None \<Rightarrow> ''other'' | Some c \<Rightarrow> c),
     m_source = SourceUser,
     m_extractionStatus = extractionStatus_of pl,
     m_agentId = agentId_of ctx,
     m_sessionKey = ctx_sessionKey ctx\<rparr>"

definition memory_store :: "'m env \<Rightarrow> plugin \<Rightarrow> plugin_ctx \<Rightarrow> store_params \<Rightarrow> store_details io" where
  "memory_store env pl ctx params =
     io_bind (embed env (pl_embeddings pl) (p_text params))
       (\<lambda>vector.
          io_bind (io_ask (FindSimilar vector (Num 0.95) 1)
                     (\<lambda>h. db_findSimilar env h vector (Num 0.95) 1))
            (\<lambda>existing. case existing of
               e # es \<Rightarrow> io_ret (Duplicate (h_id e) (h_text e))
             | [] \<Rightarrow>
                 io_bind (io_ask RandomUUID (\<lambda>h. Inr (crypto_randomUUID env h)))
                   (\<lambda>memoryId.
                      io_bind (io_ask (StoreMemory (new_memory pl ctx params vector memoryId))
                                 (\<lambda>h. db_storeMemory env h
                                    (new_memory pl ctx params vector memoryId)))
                        (\<lambda>_. io_ret (Created memoryId)))))"

record forget_params =
  p_query :: "jsstring option"
  p_memoryId :: "jsstring option"

datatype forget_details =
    NotFound jsstring
  | Deleted jsstring
  | FoundNone
  | Candidates "hit list"
  | MissingParam

definition memory_forget :: "'m env \<Rightarrow> plugin \<Rightarrow> forget_params \<Rightarrow> forget_details io" where
  "memory_forget env pl params =
     (if truthy (p_memoryId params)
      then io_bind (io_ask (DeleteMemory (the (p_memoryId params)))
                      (\<lambda>h. db_deleteMemory env h (the (p_memoryId params))))
             (\<lambda>deleted. if \<not> deleted then io_ret (NotFound (the (p_memoryId params)))
                          else io_ret (Deleted (the (p_memoryId params))))
      else if truthy (p_query params)
      then io_bind (embed env (pl_embeddings pl) (the (p_query params)))
             (\<lambda>vector.
                io_bind (io_ask (VectorSearch vector 5 (Num 0.7))
                           (\<lambda>h. db_vectorSearch env h vector 5 (Num 0.7)))
                  (\<lambda>results.
                     if results = [] then io_ret FoundNone
                     else if length results = 1 \<and> num_gt (h_score (hd results)) (Num 0.9)
                     then io_bind (io_ask (DeleteMemory (h_id (hd results)))
                                     (\<lambda>h. db_deleteMemory env h (h_id (hd results))))
                            (\<lambda>_. io_ret (Deleted (h_id (hd results))))
                     else io_ret (Candidates results)))
      else io_ret MissingParam)"

subsection \<open>What a history holds\<close>

fun stored_of :: "event \<Rightarrow> memory list" where
  "stored_of (StoreMemory m) = [m]"
| "stored_of _ = []"

definition stores :: "event list \<Rightarrow> memory list" where
  "stores h = concat (map stored_of h)"

fun deleted_of :: "event \<Rightarrow> jsstring list" where
  "deleted_of (DeleteMemory i) = [i]"
| "deleted_of _ = []"

definition deletes :: "event list \<Rightarrow> jsstring list" where
  "deletes h = concat (map deleted_of h)"

lemma stores_simps [simp]:
  "stores [] = []" "stores (e # h) = stored_of e @ stores h" "stores (h @ h') = stores h @ stores h'"
  by (simp_all add: stores_def)

lemma deletes_simps [simp]:
  "deletes [] = []" "deletes (e # h) = deleted_of e @ deletes h"
  "deletes (h @ h') = deletes h @ deletes h'"
  by (simp_all add: deletes_def)

lemma embed_history:
  "\<exists>hs. snd (embed env emb t h) = h @ hs \<and> stores hs = [] \<and> deletes hs = []"
proof -
  obtain r h' where t: "truncateToContext emb t h = (r, h')" by (cases "truncateToContext emb t h")
  from t truncateToContext_run [of emb t h]
  have r: "r = Inr (truncated_input (contextLength emb) t)" and h': "h' = h @ truncation_log emb t"
    by simp_all
  have tl: "stores (truncation_log emb t) = [] \<and> deletes (truncation_log emb t) = []"
    by (simp add: truncation_log_def)
  show ?thesis
  proof (cases "provider emb")
    case Ollama
    have "snd (embed env emb t h) = h @ (truncation_log emb t @
        [FetchOllama (truncated_input (contextLength emb) t)])"
      using Ollama embedOllama_history [of env "truncated_input (contextLength emb) t" h']
      by (simp add: embed_def io_defs t r h')
    moreover have "stores (truncation_log emb t @
        [FetchOllama (truncated_input (contextLength emb) t)]) = [] \<and>
      deletes (truncation_log emb t @ [FetchOllama (truncated_input (contextLength emb) t)]) = []"
      using tl by simp
    ultimately show ?thesis by blast
  next
    case OpenAI
    show ?thesis
    proof (cases "client emb")
      case True
      have "snd (embed env emb t h) = h @ (truncation_log emb t @
          [OpenAICreate (Single (truncated_input (contextLength emb) t))])"
        using OpenAI True
        by (simp add: embed_def embedOpenAI_def io_defs t r h' split: sum.splits list.splits)
      moreover have "stores (truncation_log emb t @
          [OpenAICreate (Single (truncated_input (contextLength emb) t))]) = [] \<and>
        deletes (truncation_log emb t @
          [OpenAICreate (Single (truncated_input (contextLength emb) t))]) = []"
        using tl by simp
      ultimately show ?thesis by blast
    next
      case False
      have "snd (embed env emb t h) = h @ truncation_log emb t"
        using OpenAI False by (simp add: embed_def embedOpenAI_def io_defs t r h')
      with tl show ?thesis by blast
    qed
  qed
qed

lemma embed_stores [simp]: "stores (snd (embed env emb t h)) = stores h"
  using embed_history [of env emb t h] by auto

lemma embed_deletes [simp]: "deletes (snd (embed env emb t h)) = deletes h"
  using embed_history [of env emb t h] by auto


lemma memory_store_duplicate_run:
  assumes "embed env (pl_embeddings pl) (p_text params) h = (Inr v, h1)"
    and "db_findSimilar env h1 v (Num 0.95) 1 = Inr (e # es)"
  shows "memory_store env pl ctx params h =
     (Inr (Duplicate (h_id e) (h_text e)), h1 @ [FindSimilar v (Num 0.95) 1])"
  using assms by (simp add: memory_store_def io_defs)

lemma memory_store_created_run:
  assumes "embed env (pl_embeddings pl) (p_text params) h = (Inr v, h1)"
    and "db_findSimilar env h1 v (Num 0.95) 1 = Inr []"
  shows "memory_store env pl ctx params h =
     ((case db_storeMemory env (h1 @ [FindSimilar v (Num 0.95) 1, RandomUUID])
              (new_memory pl ctx params v
                 (crypto_randomUUID env (h1 @ [FindSimilar v (Num 0.95) 1]))) of
         Inl err \<Rightarrow> Inl err
       | Inr u \<Rightarrow> Inr (Created (crypto_randomUUID env (h1 @ [FindSimilar v (Num 0.95) 1])))),
      h1 @ [FindSimilar v (Num 0.95) 1, RandomUUID,
            StoreMemory (new_memory pl ctx params v
              (crypto_randomUUID env (h1 @ [FindSimilar v (Num 0.95) 1])))])"
  using assms by (simp add: memory_store_def io_defs split: sum.splits)

lemma embed_stores_eq:
  "embed env emb t h = (r, h1) \<Longrightarrow> stores h1 = stores h"
  using embed_stores [of env emb t h] by simp

lemma embed_deletes_eq:
  "embed env emb t h = (r, h1) \<Longrightarrow> deletes h1 = deletes h"
  using embed_deletes [of env emb t h] by simp

text \<open>
  C1. When the embedding of the text has been obtained: if the similarity search at
  threshold 0.95 returns at least one memory, \<open>memory_store\<close> returns the outcome
  \<open>duplicate\<close> with the id and text of the first one and issues no write; if the search
  returns none, it issues exactly one write, of a memory whose id is the one newly drawn
  from \<open>randomUUID\<close> in this call, and once the store has accepted the write it returns
  the outcome \<open>created\<close> with that id.
\<close>

theorem memory_store_outcome:
  assumes "embed env (pl_embeddings pl) (p_text params) h = (Inr v, h1)"
  shows "(db_findSimilar env h1 v (Num 0.95) 1 = Inr (e # es) \<longrightarrow>
            fst (memory_store env pl ctx params h) = Inr (Duplicate (h_id e) (h_text e)) \<and>
            stores (snd (memory_store env pl ctx params h)) = stores h) \<and>
         (db_findSimilar env h1 v (Num 0.95) 1 = Inr [] \<longrightarrow>
            (\<exists>m. stores (snd (memory_store env pl ctx params h)) = stores h @ [m] \<and>
                 m_id m = crypto_randomUUID env (h1 @ [FindSimilar v (Num 0.95) 1]) \<and>
                 m_text m = p_text params \<and> m_embedding m = v \<and>
                 (db_storeMemory env (h1 @ [FindSimilar v (Num 0.95) 1, RandomUUID]) m = Inr () \<longrightarrow>
                    fst (memory_store env pl ctx params h) = Inr (Created (m_id m)))))"
proof (intro conjI impI)
  assume d: "db_findSimilar env h1 v (Num 0.95) 1 = Inr (e # es)"
  from memory_store_duplicate_run [OF assms d, of ctx]
  show "fst (memory_store env pl ctx params h) = Inr (Duplicate (h_id e) (h_text e))"
    by simp
  from memory_store_duplicate_run [OF assms d, of ctx] embed_stores_eq [OF assms]
  show "stores (snd (memory_store env pl ctx params h)) = stores h"
    by simp
next
  assume n: "db_findSimilar env h1 v (Num 0.95) 1 = Inr []"
  let ?m = "new_memory pl ctx params v (crypto_randomUUID env (h1 @ [FindSimilar v (Num 0.95) 1]))"
  note run = memory_store_created_run [OF assms n, of ctx]
  have "stores (snd (memory_store env pl ctx params h)) = stores h @ [?m] \<and>
      m_id ?m = crypto_randomUUID env (h1 @ [FindSimilar v (Num 0.95) 1]) \<and>
      m_text ?m = p_text params \<and> m_embedding ?m = v \<and>
      (db_storeMemory env (h1 @ [FindSimilar v (Num 0.95) 1, RandomUUID]) ?m = Inr () \<longrightarrow>
         fst (memory_store env pl ctx params h) = Inr (Created (m_id ?m)))"
    using embed_stores_eq [OF assms] by (simp add: run new_memory_def)
  then show "\<exists>m. stores (snd (memory_store env pl ctx params h)) = stores h @ [m] \<and>
      m_id m = crypto_randomUUID env (h1 @ [FindSimilar v (Num 0.95) 1]) \<and>
      m_text m = p_text params \<and> m_embedding m = v \<and>
      (db_storeMemory env (h1 @ [FindSimilar v (Num 0.95) 1, RandomUUID]) m = Inr () \<longrightarrow>
         fst (memory_store env pl ctx params h) = Inr (Created (m_id m)))"
    by blast
qed

lemma clamp_unit_interval:
  "x \<noteq> NaN \<Longrightarrow>
   num_le (Num 0) (Math_min (Num 1) (Math_max (Num 0) x)) \<and>
   num_le (Math_min (Num 1) (Math_max (Num 0) x)) (Num 1)"
  by (cases x) (auto simp: Math_min_def Math_max_def num_le_def)

lemma clamp_real: "Math_min (Num 1) (Math_max (Num 0) (Num r)) = Num (min 1 (max 0 r))"
  by (auto simp: Math_min_def Math_max_def)

text \<open>
  C8. Whenever \<open>memory_store\<close> writes a memory (the embedding was obtained and the
  similarity search found nothing), and the importance \<open>x\<close> it was given (0.7 when none was
  given) is a number, that is, anything but NaN, the memory written has importance
  \<open>Math.min(1, Math.max(0, x))\<close>, which lies between 0 and 1; for a finite \<open>x\<close> this is
  \<open>min 1 (max 0 x)\<close>, and the two infinities are clamped to 0 and 1.
\<close>

theorem memory_store_importance_clamped:
  assumes "embed env (pl_embeddings pl) (p_text params) h = (Inr v, h1)"
    and "db_findSimilar env h1 v (Num 0.95) 1 = Inr []"
    and "x = (case p_importance params of None \<Rightarrow> Num 0.7 | Some y \<Rightarrow> y)"
    and "x \<noteq> NaN"
  shows "\<exists>m. stores (snd (memory_store env pl ctx params h)) = stores h @ [m] \<and>
           m_importance m = Math_min (Num 1) (Math_max (Num 0) x) \<and>
           num_le (Num 0) (m_importance m) \<and> num_le (m_importance m) (Num 1) \<and>
           (\<forall>r. x = Num r \<longrightarrow> m_importance m = Num (min 1 (max 0 r))) \<and>
           (x = PosInf \<longrightarrow> m_importance m = Num 1) \<and>
           (x = NegInf \<longrightarrow> m_importance m = Num 0)"
proof -
  let ?m = "new_memory pl ctx params v (crypto_randomUUID env (h1 @ [FindSimilar v (Num 0.95) 1]))"
  note run = memory_store_created_run [OF assms(1) assms(2), of ctx]
  have i: "m_importance ?m = Math_min (Num 1) (Math_max (Num 0) x)"
    by (simp add: new_memory_def assms(3))
  have "stores (snd (memory_store env pl ctx params h)) = stores h @ [?m]"
    using embed_stores_eq [OF assms(1)] by (simp add: run)
  moreover have "num_le (Num 0) (m_importance ?m) \<and> num_le (m_importance ?m) (Num 1)"
    unfolding i using assms(4) by (rule clamp_unit_interval)
  moreover have "\<forall>r. x = Num r \<longrightarrow> m_importance ?m = Num (min 1 (max 0 r))"
    unfolding i by (simp add: clamp_real)
  moreover have "(x = PosInf \<longrightarrow> m_importance ?m = Num 1) \<and> (x = NegInf \<longrightarrow> m_importance ?m = Num 0)"
    unfolding i by (simp add: Math_min_def Math_max_def)
  ultimately show ?thesis using i by blast
qed


text \<open>
  C9. With a memory id, \<open>memory_forget\<close> asks the store to delete it and returns
  \<open>deleted\<close> if the store reports a deletion and \<open>not_found\<close> otherwise. With a query
  only, once the embedding and the search results have been obtained: if the search
  returned exactly one result and its score is above 0.9, that memory is deleted and the
  outcome is \<open>deleted\<close>; in every other case nothing is deleted and the call returns the
  zero-found outcome for no result and the list of candidates otherwise. With neither
  parameter it returns the missing-parameter outcome and performs no call at all. (An empty
  string counts as a parameter that was not given.)
\<close>

theorem memory_forget_outcome:
  "(truthy (p_memoryId params) \<longrightarrow>
      deletes (snd (memory_forget env pl params h)) = deletes h @ [the (p_memoryId params)] \<and>
      (\<forall>b. db_deleteMemory env h (the (p_memoryId params)) = Inr b \<longrightarrow>
         fst (memory_forget env pl params h) =
           Inr (if b then Deleted (the (p_memoryId params))
                else NotFound (the (p_memoryId params))))) \<and>
   (\<not> truthy (p_memoryId params) \<and> truthy (p_query params) \<longrightarrow>
      (\<forall>v h1 results.
         embed env (pl_embeddings pl) (the (p_query params)) h = (Inr v, h1) \<and>
         db_vectorSearch env h1 v 5 (Num 0.7) = Inr results \<longrightarrow>
         (if length results = 1 \<and> num_gt (h_score (hd results)) (Num 0.9)
          then deletes (snd (memory_forget env pl params h)) = deletes h @ [h_id (hd results)] \<and>
               (\<forall>b. db_deleteMemory env (h1 @ [VectorSearch v 5 (Num 0.7)]) (h_id (hd results))
                      = Inr b \<longrightarrow>
                  fst (memory_forget env pl params h) = Inr (Deleted (h_id (hd results))))
          else deletes (snd (memory_forget env pl params h)) = deletes h \<and>
               fst (memory_forget env pl params h) =
                 Inr (if results = [] then FoundNone else Candidates results)))) \<and>
   (\<not> truthy (p_memoryId params) \<and> \<not> truthy (p_query params) \<longrightarrow>
      memory_forget env pl params h = (Inr MissingParam, h))"
proof (intro conjI impI allI)
  assume "truthy (p_memoryId params)"
  then show "deletes (snd (memory_forget env pl params h)) = deletes h @ [the (p_memoryId params)]"
    by (simp add: memory_forget_def io_defs split: sum.splits)
next
  fix b
  assume "truthy (p_memoryId params)" "db_deleteMemory env h (the (p_memoryId params)) = Inr b"
  then show "fst (memory_forget env pl params h) =
      Inr (if b then Deleted (the (p_memoryId params)) else NotFound (the (p_memoryId params)))"
    by (simp add: memory_forget_def io_defs)
next
  fix v h1 results
  assume q: "\<not> truthy (p_memoryId params) \<and> truthy (p_query params)"
    and r: "embed env (pl_embeddings pl) (the (p_query params)) h = (Inr v, h1) \<and>
      db_vectorSearch env h1 v 5 (Num 0.7) = Inr results"
  from r have d: "deletes h1 = deletes h"
    using embed_deletes_eq by blast
  show "if length results = 1 \<and> num_gt (h_score (hd results)) (Num 0.9)
      then deletes (snd (memory_forget env pl params h)) = deletes h @ [h_id (hd results)] \<and>
           (\<forall>b. db_deleteMemory env (h1 @ [VectorSearch v 5 (Num 0.7)]) (h_id (hd results))
                  = Inr b \<longrightarrow>
              fst (memory_forget env pl params h) = Inr (Deleted (h_id (hd results))))
      else deletes (snd (memory_forget env pl params h)) = deletes h \<and>
           fst (memory_forget env pl params h) =
             Inr (if results = [] then FoundNone else Candidates results)"
    using q r d by (auto simp: memory_forget_def io_defs split: sum.splits)
next
  assume "\<not> truthy (p_memoryId params) \<and> \<not> truthy (p_query params)"
  then show "memory_forget env pl params h = (Inr MissingParam, h)"
    by (simp add: memory_forget_def io_defs)
qed

text \<open>Concrete runs of the tools.\<close>

definition hit_of :: "memory \<Rightarrow> hit" where
  "hit_of m = \<lparr>h_id = m_id m, h_text = m_text m, h_category = m_category m, h_score = Num 0.97\<rparr>"

text \<open>
  An environment whose similarity search answers from the writes recorded in the history:
  the memories stored so far with the same embedding.
\<close>

definition env_store :: "unit env" where
  "env_store = env0\<lparr>db_findSimilar :=
     (\<lambda>h v t n. Inr (take n (map hit_of (filter (\<lambda>m. m_embedding m = v) (stores h)))))\<rparr>"

definition plugin0 :: plugin where
  "plugin0 = \<lparr>pl_embeddings = ollama512, pl_extractionEnabled = True\<rparr>"

definition ctx0 :: plugin_ctx where
  "ctx0 = \<lparr>ctx_agentId = None, ctx_sessionKey = Some (js ''s1'')\<rparr>"

definition tea :: store_params where
  "tea = \<lparr>p_text = js ''Ada likes tea'', p_importance = Some (Num 1.5), p_category = None\<rparr>"

lemma findSimilar_env_store:
  "db_findSimilar env_store h v t n =
     Inr (take n (map hit_of (filter (\<lambda>m. m_embedding m = v) (stores h))))"
  by (simp add: env_store_def)

lemma embed_tea:
  "embed env_store (pl_embeddings plugin0) (p_text tea) h =
     (Inr [Num 13], h @ [FetchOllama (js ''Ada likes tea'')])"
  by (simp add: embed_def embedOllama_def truncateToContext_def io_defs plugin0_def ollama512_def
      tea_def env_store_def env0_def js_def)

theorem memory_store_witness:
  "fst (memory_store env_store plugin0 ctx0 tea []) = Inr (Created [120, 120, 120]) \<and>
   map m_id (stores (snd (memory_store env_store plugin0 ctx0 tea []))) = [[120, 120, 120]] \<and>
   fst (memory_store env_store plugin0 ctx0 tea (snd (memory_store env_store plugin0 ctx0 tea [])))
     = Inr (Duplicate [120, 120, 120] (js ''Ada likes tea'')) \<and>
   stores (snd (memory_store env_store plugin0 ctx0 tea
       (snd (memory_store env_store plugin0 ctx0 tea []))))
     = stores (snd (memory_store env_store plugin0 ctx0 tea []))"
proof -
  let ?h1 = "[FetchOllama (js ''Ada likes tea'')]"
  have f1: "db_findSimilar env_store ?h1 [Num 13] (Num 0.95) 1 = Inr []"
    by (simp add: env_store_def)
  note first = memory_store_outcome [OF embed_tea [of "[]", simplified], where ctx = ctx0]
  from first f1
  have m: "\<exists>m. stores (snd (memory_store env_store plugin0 ctx0 tea [])) = stores [] @ [m] \<and>
      m_id m = crypto_randomUUID env_store (?h1 @ [FindSimilar [Num 13] (Num 0.95) 1]) \<and>
      m_text m = p_text tea \<and> m_embedding m = [Num 13] \<and>
      (db_storeMemory env_store (?h1 @ [FindSimilar [Num 13] (Num 0.95) 1, RandomUUID]) m = Inr () \<longrightarrow>
         fst (memory_store env_store plugin0 ctx0 tea []) = Inr (Created (m_id m)))"
    by blast
  then obtain m where m: "stores (snd (memory_store env_store plugin0 ctx0 tea [])) = [m]"
      "m_id m = [120, 120, 120]" "m_text m = js ''Ada likes tea''" "m_embedding m = [Num 13]"
      "fst (memory_store env_store plugin0 ctx0 tea []) = Inr (Created [120, 120, 120])"
    by (auto simp: env_store_def env0_def tea_def)
  let ?h = "snd (memory_store env_store plugin0 ctx0 tea [])"
  let ?h2 = "?h @ [FetchOllama (js ''Ada likes tea'')]"
  have f2: "db_findSimilar env_store ?h2 [Num 13] (Num 0.95) 1 = Inr [hit_of m]"
    by (simp add: findSimilar_env_store m)
  from memory_store_outcome [OF embed_tea [of ?h], where e = "hit_of m" and es = "[]"
      and ctx = ctx0] f2
  have "fst (memory_store env_store plugin0 ctx0 tea ?h)
        = Inr (Duplicate (h_id (hit_of m)) (h_text (hit_of m))) \<and>
      stores (snd (memory_store env_store plugin0 ctx0 tea ?h)) = stores ?h"
    by blast
  with m show ?thesis by (simp add: hit_of_def)
qed

theorem memory_store_importance_witness:
  "map m_importance (stores (snd (memory_store env_store plugin0 ctx0 tea []))) = [Num 1] \<and>
   map m_importance (stores (snd (memory_store env_store plugin0 ctx0
      (tea\<lparr>p_importance := Some (Num (- 3))\<rparr>) []))) = [Num 0] \<and>
   map m_importance (stores (snd (memory_store env_store plugin0 ctx0
      (tea\<lparr>p_importance := None\<rparr>) []))) = [Num 0.7]"
proof -
  have e: "\<And>p. p_text p = js ''Ada likes tea'' \<Longrightarrow>
      embed env_store (pl_embeddings plugin0) (p_text p) [] =
        (Inr [Num 13], [FetchOllama (js ''Ada likes tea'')])"
    using embed_tea [of "[]"] by (simp add: tea_def)
  have f: "db_findSimilar env_store [FetchOllama (js ''Ada likes tea'')] [Num 13] (Num 0.95) 1
      = Inr []"
    by (simp add: env_store_def)
  have a: "map m_importance (stores (snd (memory_store env_store plugin0 ctx0 tea []))) = [Num 1]"
    using memory_store_importance_clamped [OF e f, where params = tea and x = "Num 1.5"
        and ctx = ctx0]
    by (auto simp: tea_def Math_min_def Math_max_def)
  have b: "map m_importance (stores (snd (memory_store env_store plugin0 ctx0
      (tea\<lparr>p_importance := Some (Num (- 3))\<rparr>) []))) = [Num 0]"
    using memory_store_importance_clamped [OF e f,
        where params = "tea\<lparr>p_importance := Some (Num (- 3))\<rparr>" and x = "Num (- 3)"
        and ctx = ctx0]
    by (auto simp: tea_def Math_min_def Math_max_def)
  have c: "map m_importance (stores (snd (memory_store env_store plugin0 ctx0
      (tea\<lparr>p_importance := None\<rparr>) []))) = [Num 0.7]"
    using memory_store_importance_clamped [OF e f,
        where params = "tea\<lparr>p_importance := None\<rparr>" and x = "Num 0.7" and ctx = ctx0]
    by (auto simp: tea_def Math_min_def Math_max_def)
  from a b c show ?thesis by simp
qed


definition tea_hit :: hit where
  "tea_hit = \<lparr>h_id = js ''m7'', h_text = js ''Ada likes tea'', h_category = ''fact'',
     h_score = Num 0.95\<rparr>"

definition env_one_hit :: "unit env" where
  "env_one_hit = env0\<lparr>db_vectorSearch := (\<lambda>h v n t. Inr [tea_hit])\<rparr>"

definition env_two_hits :: "unit env" where
  "env_two_hits = env0\<lparr>db_vectorSearch := (\<lambda>h v n t. Inr [tea_hit, tea_hit\<lparr>h_id := js ''m8''\<rparr>])\<rparr>"

theorem memory_forget_witness:
  "fst (memory_forget env0 plugin0 \<lparr>p_query = None, p_memoryId = Some (js ''m7'')\<rparr> [])
     = Inr (Deleted (js ''m7'')) \<and>
   fst (memory_forget (env0\<lparr>db_deleteMemory := (\<lambda>h i. Inr False)\<rparr>) plugin0
          \<lparr>p_query = None, p_memoryId = Some (js ''m7'')\<rparr> [])
     = Inr (NotFound (js ''m7'')) \<and>
   fst (memory_forget env_one_hit plugin0 \<lparr>p_query = Some (js ''tea''), p_memoryId = None\<rparr> [])
     = Inr (Deleted (js ''m7'')) \<and>
   deletes (snd (memory_forget env_one_hit plugin0
      \<lparr>p_query = Some (js ''tea''), p_memoryId = None\<rparr> [])) = [js ''m7''] \<and>
   fst (memory_forget env_two_hits plugin0 \<lparr>p_query = Some (js ''tea''), p_memoryId = None\<rparr> [])
     = Inr (Candidates [tea_hit, tea_hit\<lparr>h_id := js ''m8''\<rparr>]) \<and>
   deletes (snd (memory_forget env_two_hits plugin0
      \<lparr>p_query = Some (js ''tea''), p_memoryId = None\<rparr> [])) = [] \<and>
   fst (memory_forget env0 plugin0 \<lparr>p_query = Some (js ''tea''), p_memoryId = None\<rparr> [])
     = Inr FoundNone \<and>
   memory_forget env0 plugin0 \<lparr>p_query = None, p_memoryId = Some []\<rparr> []
     = (Inr MissingParam, [])"
  using memory_forget_outcome [of "\<lparr>p_query = None, p_memoryId = Some (js ''m7'')\<rparr>" env0
      plugin0 "[]"]
    memory_forget_outcome [of "\<lparr>p_query = None, p_memoryId = Some (js ''m7'')\<rparr>"
      "env0\<lparr>db_deleteMemory := (\<lambda>h i. Inr False)\<rparr>" plugin0 "[]"]
    memory_forget_outcome [of "\<lparr>p_query = Some (js ''tea''), p_memoryId = None\<rparr>" env_one_hit
      plugin0 "[]"]
    memory_forget_outcome [of "\<lparr>p_query = Some (js ''tea''), p_memoryId = None\<rparr>" env_two_hits
      plugin0 "[]"]
    memory_forget_outcome [of "\<lparr>p_query = Some (js ''tea''), p_memoryId = None\<rparr>" env0
      plugin0 "[]"]
    memory_forget_outcome [of "\<lparr>p_query = None, p_memoryId = Some []\<rparr>" env0 plugin0 "[]"]
  by (simp add: memory_forget_def embed_def embedOllama_def truncateToContext_def io_defs
      truthy_def plugin0_def ollama512_def env_one_hit_def env_two_hits_def env0_def tea_hit_def
      num_gt_def js_def)

section \<open>Auto-capture: the \<open>agent_end\<close> hook (index.ts)\<close>

record 'm agent_end_event =
  ev_success :: bool
  ev_messages :: "'m list option"

text \<open>
  The hook filters the messages with the two gates. A gate leaves the state of the shared
  patterns as it found it and its verdict does not depend on that state, so the hook does
  not thread the state: the verdict is read off from the initial state.
\<close>

definition gate_user :: "(nat \<Rightarrow> bool) \<Rightarrow> jsstring \<Rightarrow> bool" where
  "gate_user em t = fst (passesAttentionGate em (\<lambda>k. 0) t)"

definition gate_assistant :: "(nat \<Rightarrow> bool) \<Rightarrow> jsstring \<Rightarrow> bool" where
  "gate_assistant em t = fst (passesAssistantAttentionGate em (\<lambda>k. 0) t)"

definition user_memory :: "plugin \<Rightarrow> plugin_ctx \<Rightarrow> jsstring \<Rightarrow> vec \<Rightarrow> number \<Rightarrow> jsstring \<Rightarrow> memory" where
  "user_memory pl ctx t vector importance memoryId = \<lparr>
     m_id = memoryId,
     m_text = t,
     m_embedding = vector,
     m_importance = importance,
     m_category = ''other'',
     m_source = SourceAutoCapture,
     m_extractionStatus = extractionStatus_of pl,
     m_agentId = agentId_of ctx,
     m_sessionKey = ctx_sessionKey ctx\<rparr>"

definition assistant_memory :: "plugin \<Rightarrow> plugin_ctx \<Rightarrow> jsstring \<Rightarrow> vec \<Rightarrow> number \<Rightarrow> jsstring \<Rightarrow> memory" where
  "assistant_memory pl ctx t vector importance memoryId = \<lparr>
     m_id = memoryId,
     m_text = t,
     m_embedding = vector,
     m_importance = Math_min importance (Num 0.4),
     m_category = ''other'',
     m_source = SourceAutoCaptureAssistant,
     m_extractionStatus = extractionStatus_of pl,
     m_agentId = agentId_of ctx,
     m_sessionKey = ctx_sessionKey ctx\<rparr>"

text \<open>
  The body of the \<open>try\<close> block of one iteration of the loop over the retained user
  messages; the result says whether \<open>stored++\<close> was reached (\<open>continue\<close> leaves it out).
\<close>

definition capture_user_item :: "'m env \<Rightarrow> plugin \<Rightarrow> plugin_ctx \<Rightarrow> jsstring \<Rightarrow> bool io" where
  "capture_user_item env pl ctx t =
     io_bind (embed env (pl_embeddings pl) t)
       (\<lambda>vector.
          io_bind (io_ask (FindSimilar vector (Num 0.95) 1)
                     (\<lambda>h. db_findSimilar env h vector (Num 0.95) 1))
            (\<lambda>existing.
               if existing \<noteq> [] then io_ret False
               else io_bind (io_ask (RateImportance t) (\<lambda>h. rateImportance env h t))
                 (\<lambda>importance.
                    io_bind (io_ask RandomUUID (\<lambda>h. Inr (crypto_randomUUID env h)))
                      (\<lambda>memoryId.
                         io_bind (io_ask (StoreMemory (user_memory pl ctx t vector importance memoryId))
                                    (\<lambda>h. db_storeMemory env h
                                       (user_memory pl ctx t vector importance memoryId)))
                           (\<lambda>_. io_ret True)))))"

definition capture_user_step :: "'m env \<Rightarrow> plugin \<Rightarrow> plugin_ctx \<Rightarrow> jsstring \<Rightarrow> bool io" where
  "capture_user_step env pl ctx t =
     io_catch (capture_user_item env pl ctx t)
       (\<lambda>err. io_bind (io_emit (Log Debug (AutoCaptureItemFailed err))) (\<lambda>_. io_ret False))"

fun capture_user :: "'m env \<Rightarrow> plugin \<Rightarrow> plugin_ctx \<Rightarrow> jsstring list \<Rightarrow> nat \<Rightarrow> nat io" where
  "capture_user env pl ctx [] stored = io_ret stored"
| "capture_user env pl ctx (t # ts) stored =
     io_bind (capture_user_step env pl ctx t)
       (\<lambda>did. capture_user env pl ctx ts (if did then Suc stored else stored))"

definition capture_assistant_item :: "'m env \<Rightarrow> plugin \<Rightarrow> plugin_ctx \<Rightarrow> jsstring \<Rightarrow> bool io" where
  "capture_assistant_item env pl ctx t =
     io_bind (io_ask (RateImportance t) (\<lambda>h. rateImportance env h t))
       (\<lambda>importance.
          if num_lt importance (Num 0.7) then io_ret False
          else io_bind (embed env (pl_embeddings pl) t)
            (\<lambda>vector.
               io_bind (io_ask (FindSimilar vector (Num 0.95) 1)
                          (\<lambda>h. db_findSimilar env h vector (Num 0.95) 1))
                 (\<lambda>existing.
                    if existing \<noteq> [] then io_ret False
                    else io_bind (io_ask RandomUUID (\<lambda>h. Inr (crypto_randomUUID env h)))
                      (\<lambda>memoryId.
                         io_bind (io_ask (StoreMemory
                                      (assistant_memory pl ctx t vector importance memoryId))
                                    (\<lambda>h. db_storeMemory env h
                                       (assistant_memory pl ctx t vector importance memoryId)))
                           (\<lambda>_. io_ret True)))))"

definition capture_assistant_step :: "'m env \<Rightarrow> plugin \<Rightarrow> plugin_ctx \<Rightarrow> jsstring \<Rightarrow> bool io" where
  "capture_assistant_step env pl ctx t =
     io_catch (capture_assistant_item env pl ctx t)
       (\<lambda>err. io_bind (io_emit (Log Debug (AssistantAutoCaptureItemFailed err)))
                 (\<lambda>_. io_ret False))"

fun capture_assistant :: "'m env \<Rightarrow> plugin \<Rightarrow> plugin_ctx \<Rightarrow> jsstring list \<Rightarrow> nat \<Rightarrow> nat io" where
  "capture_assistant env pl ctx [] stored = io_ret stored"
| "capture_assistant env pl ctx (t # ts) stored =
     io_bind (capture_assistant_step env pl ctx t)
       (\<lambda>did. capture_assistant env pl ctx ts (if did then Suc stored else stored))"

definition lift_result :: "err + 'a \<Rightarrow> 'a io" where
  "lift_result r = (case r of Inl e \<Rightarrow> io_throw e | Inr x \<Rightarrow> io_ret x)"

definition auto_capture :: "(nat \<Rightarrow> bool) \<Rightarrow> 'm env \<Rightarrow> plugin \<Rightarrow> plugin_ctx \<Rightarrow> 'm list \<Rightarrow> unit io" where
  "auto_capture em env pl ctx msgs =
     io_bind (lift_result (extractUserMessages env msgs))
       (\<lambda>userMessages.
          io_bind (capture_user env pl ctx (filter (gate_user em) userMessages) 0)
            (\<lambda>stored1.
               io_bind (lift_result (extractAssistantMessages env msgs))
                 (\<lambda>assistantMessages.
                    io_bind (capture_assistant env pl ctx
                               (filter (gate_assistant em) assistantMessages) stored1)
                      (\<lambda>stored.
                         if stored > 0 then io_emit (Log Info (AutoCaptured stored))
                         else if userMessages \<noteq> [] \<or> assistantMessages \<noteq> []
                         then io_emit (Log Info (AutoCaptureRan (length userMessages)
                                (length (filter (gate_user em) userMessages))
                                (length assistantMessages)
                                (length (filter (gate_assistant em) assistantMessages))))
                         else io_ret ()))))"

definition agent_end ::
    "(nat \<Rightarrow> bool) \<Rightarrow> 'm env \<Rightarrow> plugin \<Rightarrow> plugin_ctx \<Rightarrow> 'm agent_end_event \<Rightarrow> unit io" where
  "agent_end em env pl ctx event =
     io_bind (io_emit (Log Debug AgentEndFired))
       (\<lambda>_. if \<not> ev_success event \<or> ev_messages event = None \<or> ev_messages event = Some []
             then io_emit (Log Debug AgentEndSkipped)
             else io_catch (auto_capture em env pl ctx (the (ev_messages event)))
                    (\<lambda>err. io_emit (Log Warn (AutoCaptureFailed err))))"


subsection \<open>What the hook adds to the history\<close>

fun rated_of :: "event \<Rightarrow> jsstring list" where
  "rated_of (RateImportance t) = [t]"
| "rated_of _ = []"

definition rated :: "event list \<Rightarrow> jsstring list" where
  "rated h = concat (map rated_of h)"

lemma rated_simps [simp]:
  "rated [] = []" "rated (e # h) = rated_of e @ rated h" "rated (h @ h') = rated h @ rated h'"
  by (simp_all add: rated_def)

definition embed_events :: "embeddings \<Rightarrow> jsstring \<Rightarrow> event list" where
  "embed_events emb t =
     truncation_log emb t @
     (if provider emb = Ollama then [FetchOllama (truncated_input (contextLength emb) t)]
      else if client emb then [OpenAICreate (Single (truncated_input (contextLength emb) t))]
      else [])"

lemma embed_snd: "snd (embed env emb t h) = h @ embed_events emb t"
  by (cases "provider emb")
     (auto simp: embed_def embedOllama_def embedOpenAI_def truncateToContext_run io_defs
        embed_events_def split: fetch_result.splits option.splits list.splits sum.splits)

lemma embed_events_quiet [simp]:
  "stores (embed_events emb t) = []" "rated (embed_events emb t) = []"
  by (simp_all add: embed_events_def truncation_log_def)

lemma embed_events_transmitted:
  "provider emb = OpenAI \<longrightarrow> client emb \<Longrightarrow>
   transmitted (embed_events emb t) = [truncated_input (contextLength emb) t]"
  by (cases "provider emb") (simp_all add: embed_events_def)

definition from_user_path :: "memory \<Rightarrow> bool" where
  "from_user_path m = (m_source m = SourceAutoCapture)"

text \<open>What is known of a memory written by the assistant path for the text \<open>t\<close>.\<close>

definition assistant_write :: "'m env \<Rightarrow> event list \<Rightarrow> jsstring \<Rightarrow> memory \<Rightarrow> bool" where
  "assistant_write env h t m =
     (m_source m = SourceAutoCaptureAssistant \<and> m_category m = ''other'' \<and> m_text m = t \<and>
      (\<exists>r. rateImportance env h t = Inr r \<and> \<not> num_lt r (Num 0.7) \<and>
           m_importance m = Math_min r (Num 0.4)))"

lemma capture_user_step_spec:
  "\<exists>did hs. capture_user_step env pl ctx t h = (Inr did, h @ hs) \<and>
     transmitted hs = transmitted (embed_events (pl_embeddings pl) t) \<and>
     list_all from_user_path (stores hs)"
proof -
  obtain r where e: "embed env (pl_embeddings pl) t h = (r, h @ embed_events (pl_embeddings pl) t)"
    using embed_snd [of env "pl_embeddings pl" t h]
    by (cases "embed env (pl_embeddings pl) t h") simp
  show ?thesis
    by (cases r)
       (auto simp: capture_user_step_def capture_user_item_def io_defs e from_user_path_def
          user_memory_def split: sum.splits)
qed

lemma capture_assistant_step_spec:
  "\<exists>did hs. capture_assistant_step env pl ctx t h = (Inr did, h @ hs) \<and>
     rated hs = [t] \<and> list_all (assistant_write env h t) (stores hs)"
proof -
  obtain r where e: "embed env (pl_embeddings pl) t (h @ [RateImportance t]) =
      (r, h @ [RateImportance t] @ embed_events (pl_embeddings pl) t)"
    using embed_snd [of env "pl_embeddings pl" t "h @ [RateImportance t]"]
    by (cases "embed env (pl_embeddings pl) t (h @ [RateImportance t])") simp
  show ?thesis
    by (cases r)
       (auto simp: capture_assistant_step_def capture_assistant_item_def io_defs e
          assistant_write_def assistant_memory_def split: sum.splits)
qed

lemma capture_user_spec:
  "\<exists>k hs. capture_user env pl ctx ts n h = (Inr k, h @ hs) \<and>
     transmitted hs = concat (map (\<lambda>t. transmitted (embed_events (pl_embeddings pl) t)) ts) \<and>
     list_all from_user_path (stores hs)"
proof (induction ts arbitrary: n h)
  case Nil
  show ?case by (simp add: io_defs)
next
  case (Cons t ts)
  from capture_user_step_spec [of env pl ctx t h]
  obtain did hs where s: "capture_user_step env pl ctx t h = (Inr did, h @ hs)"
      "transmitted hs = transmitted (embed_events (pl_embeddings pl) t)"
      "list_all from_user_path (stores hs)"
    by blast
  from Cons.IH [of "if did then Suc n else n" "h @ hs"]
  obtain k hs' where r: "capture_user env pl ctx ts (if did then Suc n else n) (h @ hs)
        = (Inr k, (h @ hs) @ hs')"
      "transmitted hs' = concat (map (\<lambda>t. transmitted (embed_events (pl_embeddings pl) t)) ts)"
      "list_all from_user_path (stores hs')"
    by blast
  have "capture_user env pl ctx (t # ts) n h = (Inr k, h @ (hs @ hs')) \<and>
      transmitted (hs @ hs')
        = concat (map (\<lambda>t. transmitted (embed_events (pl_embeddings pl) t)) (t # ts)) \<and>
      list_all from_user_path (stores (hs @ hs'))"
    using s r by (simp add: io_bind_def)
  then show ?case by blast
qed


lemma assistant_write_ex:
  assumes "assistant_write env h t m"
  shows "\<exists>h'. assistant_write env h' (m_text m) m"
proof -
  from assms have "m_text m = t" by (simp add: assistant_write_def)
  with assms show ?thesis by blast
qed

lemma capture_assistant_spec:
  "\<exists>k hs. capture_assistant env pl ctx ts n h = (Inr k, h @ hs) \<and> rated hs = ts \<and>
     list_all (\<lambda>m. \<exists>h'. assistant_write env h' (m_text m) m) (stores hs)"
proof (induction ts arbitrary: n h)
  case Nil
  show ?case by (simp add: io_defs)
next
  case (Cons t ts)
  from capture_assistant_step_spec [of env pl ctx t h]
  obtain did hs where s: "capture_assistant_step env pl ctx t h = (Inr did, h @ hs)"
      "rated hs = [t]" "list_all (assistant_write env h t) (stores hs)"
    by blast
  from s(3) have s3: "list_all (\<lambda>m. \<exists>h'. assistant_write env h' (m_text m) m) (stores hs)"
    using assistant_write_ex [of env h t] by (auto simp: list_all_iff)
  from Cons.IH [of "if did then Suc n else n" "h @ hs"]
  obtain k hs' where r: "capture_assistant env pl ctx ts (if did then Suc n else n) (h @ hs)
        = (Inr k, (h @ hs) @ hs')"
      "rated hs' = ts"
      "list_all (\<lambda>m. \<exists>h'. assistant_write env h' (m_text m) m) (stores hs')"
    by blast
  have "capture_assistant env pl ctx (t # ts) n h = (Inr k, h @ (hs @ hs')) \<and>
      rated (hs @ hs') = t # ts \<and>
      list_all (\<lambda>m. \<exists>h'. assistant_write env h' (m_text m) m) (stores (hs @ hs'))"
    using s(1,2) s3 r by (simp add: io_bind_def)
  then show ?case by blast
qed

lemma capture_user_append:
  "\<exists>k h'. capture_user env pl ctx xs n h = (Inr k, h') \<and>
     capture_user env pl ctx (xs @ ys) n h = capture_user env pl ctx ys k h'"
proof (induction xs arbitrary: n h)
  case Nil
  show ?case by (simp add: io_defs)
next
  case (Cons t xs)
  from capture_user_step_spec [of env pl ctx t h]
  obtain did hs where s: "capture_user_step env pl ctx t h = (Inr did, h @ hs)"
    by blast
  from Cons.IH [of "if did then Suc n else n" "h @ hs"] s show ?case
    by (simp add: io_bind_def)
qed

lemma capture_assistant_append:
  "\<exists>k h'. capture_assistant env pl ctx xs n h = (Inr k, h') \<and>
     capture_assistant env pl ctx (xs @ ys) n h = capture_assistant env pl ctx ys k h'"
proof (induction xs arbitrary: n h)
  case Nil
  show ?case by (simp add: io_defs)
next
  case (Cons t xs)
  from capture_assistant_step_spec [of env pl ctx t h]
  obtain did hs where s: "capture_assistant_step env pl ctx t h = (Inr did, h @ hs)"
    by blast
  from Cons.IH [of "if did then Suc n else n" "h @ hs"] s show ?case
    by (simp add: io_bind_def)
qed

text \<open>
  The whole hook: it returns normally, and what it adds to the history is the opening
  debug line followed either by the line that it skipped, or by what the two loops added
  and the closing lines.
\<close>

lemma auto_capture_spec:
  "\<exists>hs. io_catch (auto_capture em env pl ctx ms) (\<lambda>err. io_emit (Log Warn (AutoCaptureFailed err))) h
        = (Inr (), h @ hs) \<and>
     list_all (\<lambda>m. from_user_path m \<or> (\<exists>h'. assistant_write env h' (m_text m) m)) (stores hs) \<and>
     (\<forall>us as. extractUserMessages env ms = Inr us \<and> extractAssistantMessages env ms = Inr as \<longrightarrow>
        (\<exists>post. transmitted hs =
           concat (map (\<lambda>t. transmitted (embed_events (pl_embeddings pl) t))
             (filter (gate_user em) us)) @ post) \<and>
        (\<exists>pre. rated hs = pre @ filter (gate_assistant em) as))"
proof (cases "extractUserMessages env ms")
  case (Inl e)
  then have "io_catch (auto_capture em env pl ctx ms)
      (\<lambda>err. io_emit (Log Warn (AutoCaptureFailed err))) h
        = (Inr (), h @ [Log Warn (AutoCaptureFailed e)])"
    by (simp add: auto_capture_def lift_result_def io_defs)
  with Inl show ?thesis by simp
next
  case (Inr us)
  from capture_user_spec [of env pl ctx "filter (gate_user em) us" 0 h]
  obtain k hs where u: "capture_user env pl ctx (filter (gate_user em) us) 0 h = (Inr k, h @ hs)"
      "transmitted hs = concat (map (\<lambda>t. transmitted (embed_events (pl_embeddings pl) t))
         (filter (gate_user em) us))"
      "list_all from_user_path (stores hs)"
    by blast
  show ?thesis
  proof (cases "extractAssistantMessages env ms")
    case (Inl e)
    have "io_catch (auto_capture em env pl ctx ms)
        (\<lambda>err. io_emit (Log Warn (AutoCaptureFailed err))) h
          = (Inr (), h @ (hs @ [Log Warn (AutoCaptureFailed e)]))"
      using Inr Inl u(1) by (simp add: auto_capture_def lift_result_def io_defs)
    moreover have "list_all (\<lambda>m. from_user_path m \<or> (\<exists>h'. assistant_write env h' (m_text m) m))
        (stores (hs @ [Log Warn (AutoCaptureFailed e)]))"
      using u(3) by (auto simp: list_all_iff)
    ultimately show ?thesis using Inl by force
  next
    case as: (Inr as)
    from capture_assistant_spec [of env pl ctx "filter (gate_assistant em) as" k "h @ hs"]
    obtain k' hs' where a: "capture_assistant env pl ctx (filter (gate_assistant em) as) k (h @ hs)
          = (Inr k', (h @ hs) @ hs')"
        "rated hs' = filter (gate_assistant em) as"
        "list_all (\<lambda>m. \<exists>h'. assistant_write env h' (m_text m) m) (stores hs')"
      by blast
    define tail where "tail =
      (if k' > 0 then [Log Info (AutoCaptured k')]
       else if us \<noteq> [] \<or> as \<noteq> []
       then [Log Info (AutoCaptureRan (length us) (length (filter (gate_user em) us))
               (length as) (length (filter (gate_assistant em) as)))]
       else [])"
    have run: "io_catch (auto_capture em env pl ctx ms)
        (\<lambda>err. io_emit (Log Warn (AutoCaptureFailed err))) h
          = (Inr (), h @ (hs @ hs' @ tail))"
      using Inr as u(1) a(1) by (simp add: auto_capture_def lift_result_def io_defs tail_def)
    have q: "stores tail = [] \<and> transmitted tail = [] \<and> rated tail = []"
      by (simp add: tail_def)
    have st: "list_all (\<lambda>m. from_user_path m \<or> (\<exists>h'. assistant_write env h' (m_text m) m))
        (stores (hs @ hs' @ tail))"
      using u(3) a(3) q by (auto simp: list_all_iff)
    have tr: "transmitted (hs @ hs' @ tail) =
        concat (map (\<lambda>t. transmitted (embed_events (pl_embeddings pl) t))
          (filter (gate_user em) us)) @ transmitted hs'"
      using u(2) q by simp
    have ra: "rated (hs @ hs' @ tail) = rated hs @ filter (gate_assistant em) as"
      using a(2) q by simp
    show ?thesis
      using run st tr ra Inr as by force
  qed
qed

lemma agent_end_spec:
  "\<exists>hs. agent_end em env pl ctx ev h = (Inr (), h @ hs) \<and>
     list_all (\<lambda>m. from_user_path m \<or> (\<exists>h'. assistant_write env h' (m_text m) m)) (stores hs) \<and>
     (\<forall>ms us as. ev_success ev \<and> ev_messages ev = Some ms \<and> ms \<noteq> [] \<and>
        extractUserMessages env ms = Inr us \<and> extractAssistantMessages env ms = Inr as \<longrightarrow>
        (\<exists>post. transmitted hs =
           concat (map (\<lambda>t. transmitted (embed_events (pl_embeddings pl) t))
             (filter (gate_user em) us)) @ post) \<and>
        (\<exists>pre. rated hs = pre @ filter (gate_assistant em) as))"
proof (cases "\<not> ev_success ev \<or> ev_messages ev = None \<or> ev_messages ev = Some []")
  case True
  then have "agent_end em env pl ctx ev h
      = (Inr (), h @ [Log Debug AgentEndFired, Log Debug AgentEndSkipped])"
    by (auto simp: agent_end_def io_defs)
  with True show ?thesis by auto
next
  case False
  then obtain ms where ms: "ev_messages ev = Some ms" by auto
  from auto_capture_spec [of em env pl ctx ms "h @ [Log Debug AgentEndFired]"]
  obtain hs where a: "io_catch (auto_capture em env pl ctx ms)
        (\<lambda>err. io_emit (Log Warn (AutoCaptureFailed err))) (h @ [Log Debug AgentEndFired])
          = (Inr (), (h @ [Log Debug AgentEndFired]) @ hs)"
      "list_all (\<lambda>m. from_user_path m \<or> (\<exists>h'. assistant_write env h' (m_text m) m)) (stores hs)"
      "\<forall>us as. extractUserMessages env ms = Inr us \<and> extractAssistantMessages env ms = Inr as \<longrightarrow>
        (\<exists>post. transmitted hs =
           concat (map (\<lambda>t. transmitted (embed_events (pl_embeddings pl) t))
             (filter (gate_user em) us)) @ post) \<and>
        (\<exists>pre. rated hs = pre @ filter (gate_assistant em) as)"
    by blast
  have run: "agent_end em env pl ctx ev h = (Inr (), h @ (Log Debug AgentEndFired # hs))"
    using False ms a(1) by (simp add: agent_end_def io_bind_def io_emit_def)
  have "list_all (\<lambda>m. from_user_path m \<or> (\<exists>h'. assistant_write env h' (m_text m) m))
      (stores (Log Debug AgentEndFired # hs))"
    using a(2) by simp
  moreover have "\<forall>ms' us as. ev_success ev \<and> ev_messages ev = Some ms' \<and> ms' \<noteq> [] \<and>
        extractUserMessages env ms' = Inr us \<and> extractAssistantMessages env ms' = Inr as \<longrightarrow>
        (\<exists>post. transmitted (Log Debug AgentEndFired # hs) =
           concat (map (\<lambda>t. transmitted (embed_events (pl_embeddings pl) t))
             (filter (gate_user em) us)) @ post) \<and>
        (\<exists>pre. rated (Log Debug AgentEndFired # hs) = pre @ filter (gate_assistant em) as)"
    using a(3) ms by simp
  ultimately show ?thesis using run by blast
qed


subsection \<open>A message whose calls succeed\<close>

text \<open>
  The collaborators are asked at the history the loop has reached. For a retained user
  message \<open>t\<close> reached at the history \<open>h\<close>, \<open>user_calls_succeed\<close> says that, asked there,
  the provider returns the embedding \<open>v\<close>, the store finds no similar memory, the rater
  returns \<open>r\<close> and the store accepts the write; \<open>user_item_memory\<close> is the memory of that
  write. For an assistant message the rating comes first and must not be below 0.7.
  \<open>user_loop_history\<close> and \<open>assistant_loop_history\<close> are the histories the loops leave.
\<close>

definition user_item_memory ::
    "'m env \<Rightarrow> plugin \<Rightarrow> plugin_ctx \<Rightarrow> jsstring \<Rightarrow> event list \<Rightarrow> vec \<Rightarrow> number \<Rightarrow> memory" where
  "user_item_memory env pl ctx t h v r =
     user_memory pl ctx t v r
       (crypto_randomUUID env
          (snd (embed env (pl_embeddings pl) t h) @ [FindSimilar v (Num 0.95) 1, RateImportance t]))"

definition user_calls_succeed ::
    "'m env \<Rightarrow> plugin \<Rightarrow> plugin_ctx \<Rightarrow> jsstring \<Rightarrow> event list \<Rightarrow> vec \<Rightarrow> number \<Rightarrow> bool" where
  "user_calls_succeed env pl ctx t h v r =
     (fst (embed env (pl_embeddings pl) t h) = Inr v \<and>
      db_findSimilar env (snd (embed env (pl_embeddings pl) t h)) v (Num 0.95) 1 = Inr [] \<and>
      rateImportance env (snd (embed env (pl_embeddings pl) t h) @ [FindSimilar v (Num 0.95) 1]) t
        = Inr r \<and>
      db_storeMemory env
        (snd (embed env (pl_embeddings pl) t h) @
         [FindSimilar v (Num 0.95) 1, RateImportance t, RandomUUID])
        (user_item_memory env pl ctx t h v r) = Inr ())"

definition assistant_item_memory ::
    "'m env \<Rightarrow> plugin \<Rightarrow> plugin_ctx \<Rightarrow> jsstring \<Rightarrow> event list \<Rightarrow> vec \<Rightarrow> number \<Rightarrow> memory" where
  "assistant_item_memory env pl ctx t h v r =
     assistant_memory pl ctx t v r
       (crypto_randomUUID env
          (snd (embed env (pl_embeddings pl) t (h @ [RateImportance t])) @
           [FindSimilar v (Num 0.95) 1]))"

definition assistant_calls_succeed ::
    "'m env \<Rightarrow> plugin \<Rightarrow> plugin_ctx \<Rightarrow> jsstring \<Rightarrow> event list \<Rightarrow> vec \<Rightarrow> number \<Rightarrow> bool" where
  "assistant_calls_succeed env pl ctx t h v r =
     (rateImportance env h t = Inr r \<and> \<not> num_lt r (Num 0.7) \<and>
      fst (embed env (pl_embeddings pl) t (h @ [RateImportance t])) = Inr v \<and>
      db_findSimilar env (snd (embed env (pl_embeddings pl) t (h @ [RateImportance t])))
        v (Num 0.95) 1 = Inr [] \<and>
      db_storeMemory env
        (snd (embed env (pl_embeddings pl) t (h @ [RateImportance t])) @
         [FindSimilar v (Num 0.95) 1, RandomUUID])
        (assistant_item_memory env pl ctx t h v r) = Inr ())"

definition user_loop_history ::
    "'m env \<Rightarrow> plugin \<Rightarrow> plugin_ctx \<Rightarrow> jsstring list \<Rightarrow> event list \<Rightarrow> event list" where
  "user_loop_history env pl ctx ts h = snd (capture_user env pl ctx ts 0 h)"

definition assistant_loop_history ::
    "'m env \<Rightarrow> plugin \<Rightarrow> plugin_ctx \<Rightarrow> jsstring list \<Rightarrow> event list \<Rightarrow> event list" where
  "assistant_loop_history env pl ctx ts h = snd (capture_assistant env pl ctx ts 0 h)"

lemma capture_user_step_stores:
  assumes "user_calls_succeed env pl ctx t h v r"
  shows "capture_user_step env pl ctx t h =
     (Inr True, h @ (embed_events (pl_embeddings pl) t @
        [FindSimilar v (Num 0.95) 1, RateImportance t, RandomUUID,
         StoreMemory (user_item_memory env pl ctx t h v r)]))"
proof -
  have e: "embed env (pl_embeddings pl) t h = (Inr v, h @ embed_events (pl_embeddings pl) t)"
    using assms embed_snd [of env "pl_embeddings pl" t h]
    by (simp add: user_calls_succeed_def prod_eq_iff)
  show ?thesis
    using assms
    by (simp add: capture_user_step_def capture_user_item_def io_defs e user_calls_succeed_def
        user_item_memory_def)
qed

lemma capture_assistant_step_stores:
  assumes "assistant_calls_succeed env pl ctx t h v r"
  shows "capture_assistant_step env pl ctx t h =
     (Inr True, h @ (RateImportance t # embed_events (pl_embeddings pl) t @
        [FindSimilar v (Num 0.95) 1, RandomUUID,
         StoreMemory (assistant_item_memory env pl ctx t h v r)]))"
proof -
  have e: "embed env (pl_embeddings pl) t (h @ [RateImportance t]) =
      (Inr v, h @ [RateImportance t] @ embed_events (pl_embeddings pl) t)"
    using assms embed_snd [of env "pl_embeddings pl" t "h @ [RateImportance t]"]
    by (simp add: assistant_calls_succeed_def prod_eq_iff)
  show ?thesis
    using assms
    by (simp add: capture_assistant_step_def capture_assistant_item_def io_defs e
        assistant_calls_succeed_def assistant_item_memory_def)
qed

lemma capture_user_grows:
  "\<exists>k hs. capture_user env pl ctx ts n h = (Inr k, h @ hs) \<and> n \<le> k"
proof (induction ts arbitrary: n h)
  case Nil
  show ?case by (simp add: io_defs)
next
  case (Cons t ts)
  from capture_user_step_spec [of env pl ctx t h]
  obtain did hs where s: "capture_user_step env pl ctx t h = (Inr did, h @ hs)"
    by blast
  from Cons.IH [of "if did then Suc n else n" "h @ hs"]
  obtain k hs' where r: "capture_user env pl ctx ts (if did then Suc n else n) (h @ hs)
        = (Inr k, (h @ hs) @ hs')" "(if did then Suc n else n) \<le> k"
    by blast
  have "capture_user env pl ctx (t # ts) n h = (Inr k, h @ (hs @ hs')) \<and> n \<le> k"
    using s r by (simp add: io_bind_def split: if_splits)
  then show ?case by blast
qed

lemma capture_assistant_grows:
  "\<exists>k hs. capture_assistant env pl ctx ts n h = (Inr k, h @ hs) \<and> n \<le> k"
proof (induction ts arbitrary: n h)
  case Nil
  show ?case by (simp add: io_defs)
next
  case (Cons t ts)
  from capture_assistant_step_spec [of env pl ctx t h]
  obtain did hs where s: "capture_assistant_step env pl ctx t h = (Inr did, h @ hs)"
    by blast
  from Cons.IH [of "if did then Suc n else n" "h @ hs"]
  obtain k hs' where r: "capture_assistant env pl ctx ts (if did then Suc n else n) (h @ hs)
        = (Inr k, (h @ hs) @ hs')" "(if did then Suc n else n) \<le> k"
    by blast
  have "capture_assistant env pl ctx (t # ts) n h = (Inr k, h @ (hs @ hs')) \<and> n \<le> k"
    using s r by (simp add: io_bind_def split: if_splits)
  then show ?case by blast
qed

lemma capture_user_count:
  "snd (capture_user env pl ctx ts n h) = snd (capture_user env pl ctx ts n' h)"
proof (induction ts arbitrary: n n' h)
  case Nil
  show ?case by (simp add: io_defs)
next
  case (Cons t ts)
  from capture_user_step_spec [of env pl ctx t h]
  obtain did hs where s: "capture_user_step env pl ctx t h = (Inr did, h @ hs)"
    by blast
  from Cons.IH [of "if did then Suc n else n" "h @ hs" "if did then Suc n' else n'"] s
  show ?case by (simp add: io_bind_def)
qed

lemma capture_assistant_count:
  "snd (capture_assistant env pl ctx ts n h) = snd (capture_assistant env pl ctx ts n' h)"
proof (induction ts arbitrary: n n' h)
  case Nil
  show ?case by (simp add: io_defs)
next
  case (Cons t ts)
  from capture_assistant_step_spec [of env pl ctx t h]
  obtain did hs where s: "capture_assistant_step env pl ctx t h = (Inr did, h @ hs)"
    by blast
  from Cons.IH [of "if did then Suc n else n" "h @ hs" "if did then Suc n' else n'"] s
  show ?case by (simp add: io_bind_def)
qed

text \<open>
  A message whose calls succeed is written when the loop reaches it, whatever happened
  to the messages before it.
\<close>

lemma capture_user_later_stored:
  "\<exists>k h'. capture_user env pl ctx xs n h = (Inr k, h') \<and>
     capture_user env pl ctx (xs @ ys) n h = capture_user env pl ctx ys k h' \<and>
     (user_calls_succeed env pl ctx t h' v r \<longrightarrow>
        (\<exists>k' hs. capture_user env pl ctx (xs @ t # ys) n h = (Inr k', h' @ hs) \<and> k < k' \<and>
           user_item_memory env pl ctx t h' v r \<in> set (stores hs)))"
proof -
  from capture_user_append [of env pl ctx xs n h ys]
  obtain k h' where a: "capture_user env pl ctx xs n h = (Inr k, h')"
      "capture_user env pl ctx (xs @ ys) n h = capture_user env pl ctx ys k h'"
    by blast
  from capture_user_append [of env pl ctx xs n h "t # ys"] a(1)
  have b: "capture_user env pl ctx (xs @ t # ys) n h = capture_user env pl ctx (t # ys) k h'"
    by simp
  have "\<exists>k' hs. capture_user env pl ctx (xs @ t # ys) n h = (Inr k', h' @ hs) \<and> k < k' \<and>
      user_item_memory env pl ctx t h' v r \<in> set (stores hs)"
    if ok: "user_calls_succeed env pl ctx t h' v r"
  proof -
    let ?evs = "embed_events (pl_embeddings pl) t @
        [FindSimilar v (Num 0.95) 1, RateImportance t, RandomUUID,
         StoreMemory (user_item_memory env pl ctx t h' v r)]"
    from capture_user_grows [of env pl ctx ys "Suc k" "h' @ ?evs"]
    obtain k' hs where g: "capture_user env pl ctx ys (Suc k) (h' @ ?evs) = (Inr k', (h' @ ?evs) @ hs)"
        "Suc k \<le> k'"
      by blast
    have "capture_user env pl ctx (xs @ t # ys) n h = (Inr k', h' @ (?evs @ hs)) \<and> k < k' \<and>
        user_item_memory env pl ctx t h' v r \<in> set (stores (?evs @ hs))"
      using b g capture_user_step_stores [OF ok] by (simp add: io_bind_def)
    then show ?thesis by blast
  qed
  with a show ?thesis by blast
qed

lemma capture_assistant_later_stored:
  "\<exists>k h'. capture_assistant env pl ctx xs n h = (Inr k, h') \<and>
     capture_assistant env pl ctx (xs @ ys) n h = capture_assistant env pl ctx ys k h' \<and>
     (assistant_calls_succeed env pl ctx t h' v r \<longrightarrow>
        (\<exists>k' hs. capture_assistant env pl ctx (xs @ t # ys) n h = (Inr k', h' @ hs) \<and> k < k' \<and>
           assistant_item_memory env pl ctx t h' v r \<in> set (stores hs)))"
proof -
  from capture_assistant_append [of env pl ctx xs n h ys]
  obtain k h' where a: "capture_assistant env pl ctx xs n h = (Inr k, h')"
      "capture_assistant env pl ctx (xs @ ys) n h = capture_assistant env pl ctx ys k h'"
    by blast
  from capture_assistant_append [of env pl ctx xs n h "t # ys"] a(1)
  have b: "capture_assistant env pl ctx (xs @ t # ys) n h
      = capture_assistant env pl ctx (t # ys) k h'"
    by simp
  have "\<exists>k' hs. capture_assistant env pl ctx (xs @ t # ys) n h = (Inr k', h' @ hs) \<and> k < k' \<and>
      assistant_item_memory env pl ctx t h' v r \<in> set (stores hs)"
    if ok: "assistant_calls_succeed env pl ctx t h' v r"
  proof -
    let ?evs = "RateImportance t # embed_events (pl_embeddings pl) t @
        [FindSimilar v (Num 0.95) 1, RandomUUID,
         StoreMemory (assistant_item_memory env pl ctx t h' v r)]"
    from capture_assistant_grows [of env pl ctx ys "Suc k" "h' @ ?evs"]
    obtain k' hs where g: "capture_assistant env pl ctx ys (Suc k) (h' @ ?evs)
          = (Inr k', (h' @ ?evs) @ hs)" "Suc k \<le> k'"
      by blast
    have "capture_assistant env pl ctx (xs @ t # ys) n h = (Inr k', h' @ (?evs @ hs)) \<and> k < k' \<and>
        assistant_item_memory env pl ctx t h' v r \<in> set (stores (?evs @ hs))"
      using b g capture_assistant_step_stores [OF ok] by (simp add: io_bind_def)
    then show ?thesis by blast
  qed
  with a show ?thesis by blast
qed


lemma agent_end_run:
  assumes "ev_success ev" and "ev_messages ev = Some ms" and "ms \<noteq> []"
    and "extractUserMessages env ms = Inr us" and "extractAssistantMessages env ms = Inr as"
  shows "\<exists>tail. snd (agent_end em env pl ctx ev h) =
     assistant_loop_history env pl ctx (filter (gate_assistant em) as)
       (user_loop_history env pl ctx (filter (gate_user em) us) (h @ [Log Debug AgentEndFired]))
     @ tail"
proof -
  let ?h0 = "h @ [Log Debug AgentEndFired]"
  from capture_user_grows [of env pl ctx "filter (gate_user em) us" 0 ?h0]
  obtain k hs where u: "capture_user env pl ctx (filter (gate_user em) us) 0 ?h0 = (Inr k, ?h0 @ hs)"
    by blast
  from capture_assistant_grows [of env pl ctx "filter (gate_assistant em) as" k "?h0 @ hs"]
  obtain k' hs' where a: "capture_assistant env pl ctx (filter (gate_assistant em) as) k (?h0 @ hs)
      = (Inr k', (?h0 @ hs) @ hs')"
    by blast
  have ul: "user_loop_history env pl ctx (filter (gate_user em) us) ?h0 = ?h0 @ hs"
    by (simp add: user_loop_history_def u)
  have al: "assistant_loop_history env pl ctx (filter (gate_assistant em) as) (?h0 @ hs)
      = (?h0 @ hs) @ hs'"
    using capture_assistant_count [of env pl ctx "filter (gate_assistant em) as" 0 "?h0 @ hs" k] a
    by (simp add: assistant_loop_history_def)
  define tail where "tail =
      (if k' > 0 then [Log Info (AutoCaptured k')]
       else if us \<noteq> [] \<or> as \<noteq> []
       then [Log Info (AutoCaptureRan (length us) (length (filter (gate_user em) us))
               (length as) (length (filter (gate_assistant em) as)))]
       else [])"
  have "snd (agent_end em env pl ctx ev h) = ((?h0 @ hs) @ hs') @ tail"
    using assms u a
    by (simp add: agent_end_def auto_capture_def lift_result_def io_defs tail_def)
  then show ?thesis unfolding ul al by blast
qed

lemma user_loop_history_grows:
  "\<exists>hs. user_loop_history env pl ctx ts h = h @ hs"
  using capture_user_grows [of env pl ctx ts 0 h] by (auto simp: user_loop_history_def)

lemma assistant_loop_history_grows:
  "\<exists>hs. assistant_loop_history env pl ctx ts h = h @ hs"
  using capture_assistant_grows [of env pl ctx ts 0 h] by (auto simp: assistant_loop_history_def)

lemma user_loop_history_stored:
  assumes "user_calls_succeed env pl ctx t (user_loop_history env pl ctx xs h) v r"
  shows "\<exists>hx hs. user_loop_history env pl ctx (xs @ t # ys) h = h @ hx @ hs \<and>
     user_item_memory env pl ctx t (user_loop_history env pl ctx xs h) v r \<in> set (stores hs)"
proof -
  from capture_user_later_stored [of env pl ctx xs 0 h ys t v r]
  obtain k h' where a: "capture_user env pl ctx xs 0 h = (Inr k, h')"
      "user_calls_succeed env pl ctx t h' v r \<longrightarrow>
        (\<exists>k' hs. capture_user env pl ctx (xs @ t # ys) 0 h = (Inr k', h' @ hs) \<and> k < k' \<and>
           user_item_memory env pl ctx t h' v r \<in> set (stores hs))"
    by blast
  have h': "user_loop_history env pl ctx xs h = h'"
    by (simp add: user_loop_history_def a(1))
  from a(2) assms obtain k' hs where
      b: "capture_user env pl ctx (xs @ t # ys) 0 h = (Inr k', h' @ hs)"
        "user_item_memory env pl ctx t h' v r \<in> set (stores hs)"
    unfolding h' by blast
  from user_loop_history_grows [of env pl ctx xs h] obtain hx where hx: "h' = h @ hx"
    unfolding h' by blast
  have m: "user_item_memory env pl ctx t (user_loop_history env pl ctx xs h) v r \<in> set (stores hs)"
    using b(2) unfolding h' .
  have "user_loop_history env pl ctx (xs @ t # ys) h = h @ hx @ hs"
    using b(1) hx by (simp add: user_loop_history_def)
  with m have "user_loop_history env pl ctx (xs @ t # ys) h = h @ hx @ hs \<and>
      user_item_memory env pl ctx t (user_loop_history env pl ctx xs h) v r \<in> set (stores hs)"
    by blast
  then show ?thesis by blast
qed

lemma assistant_loop_history_stored:
  assumes "assistant_calls_succeed env pl ctx t (assistant_loop_history env pl ctx xs h) v r"
  shows "\<exists>hx hs. assistant_loop_history env pl ctx (xs @ t # ys) h = h @ hx @ hs \<and>
     assistant_item_memory env pl ctx t (assistant_loop_history env pl ctx xs h) v r
       \<in> set (stores hs)"
proof -
  from capture_assistant_later_stored [of env pl ctx xs 0 h ys t v r]
  obtain k h' where a: "capture_assistant env pl ctx xs 0 h = (Inr k, h')"
      "assistant_calls_succeed env pl ctx t h' v r \<longrightarrow>
        (\<exists>k' hs. capture_assistant env pl ctx (xs @ t # ys) 0 h = (Inr k', h' @ hs) \<and> k < k' \<and>
           assistant_item_memory env pl ctx t h' v r \<in> set (stores hs))"
    by blast
  have h': "assistant_loop_history env pl ctx xs h = h'"
    by (simp add: assistant_loop_history_def a(1))
  from a(2) assms obtain k' hs where
      b: "capture_assistant env pl ctx (xs @ t # ys) 0 h = (Inr k', h' @ hs)"
        "assistant_item_memory env pl ctx t h' v r \<in> set (stores hs)"
    unfolding h' by blast
  from assistant_loop_history_grows [of env pl ctx xs h] obtain hx where hx: "h' = h @ hx"
    unfolding h' by blast
  have m: "assistant_item_memory env pl ctx t (assistant_loop_history env pl ctx xs h) v r \<in> set (stores hs)"
    using b(2) unfolding h' .
  have "assistant_loop_history env pl ctx (xs @ t # ys) h = h @ hx @ hs"
    using b(1) hx by (simp add: assistant_loop_history_def)
  with m have "assistant_loop_history env pl ctx (xs @ t # ys) h = h @ hx @ hs \<and>
      assistant_item_memory env pl ctx t (assistant_loop_history env pl ctx xs h) v r \<in> set (stores hs)"
    by blast
  then show ?thesis by blast
qed

lemma agent_end_user_stored:
  assumes "ev_success ev" and "ev_messages ev = Some ms" and "ms \<noteq> []"
    and "extractUserMessages env ms = Inr us" and "extractAssistantMessages env ms = Inr as"
    and "filter (gate_user em) us = xs @ t # ys"
    and "user_calls_succeed env pl ctx t
           (user_loop_history env pl ctx xs (h @ [Log Debug AgentEndFired])) v r"
  shows "user_item_memory env pl ctx t
           (user_loop_history env pl ctx xs (h @ [Log Debug AgentEndFired])) v r
         \<in> set (stores (drop (length h) (snd (agent_end em env pl ctx ev h))))"
proof -
  let ?h0 = "h @ [Log Debug AgentEndFired]"
  from agent_end_run [OF assms(1-5), of em pl ctx h] obtain tail where
      r: "snd (agent_end em env pl ctx ev h) =
        assistant_loop_history env pl ctx (filter (gate_assistant em) as)
          (user_loop_history env pl ctx (filter (gate_user em) us) ?h0) @ tail"
    by blast
  from user_loop_history_stored [OF assms(7), of ys] obtain hx hs where
      u: "user_loop_history env pl ctx (xs @ t # ys) ?h0 = ?h0 @ hx @ hs"
        "user_item_memory env pl ctx t (user_loop_history env pl ctx xs ?h0) v r \<in> set (stores hs)"
    by blast
  from assistant_loop_history_grows
    [of env pl ctx "filter (gate_assistant em) as" "?h0 @ hx @ hs"]
  obtain ha where a: "assistant_loop_history env pl ctx (filter (gate_assistant em) as)
      (?h0 @ hx @ hs) = (?h0 @ hx @ hs) @ ha"
    by blast
  have "drop (length h) (snd (agent_end em env pl ctx ev h))
      = Log Debug AgentEndFired # hx @ hs @ ha @ tail"
    unfolding r assms(6) u(1) a by simp
  with u(2) show ?thesis by simp
qed

lemma agent_end_assistant_stored:
  assumes "ev_success ev" and "ev_messages ev = Some ms" and "ms \<noteq> []"
    and "extractUserMessages env ms = Inr us" and "extractAssistantMessages env ms = Inr as"
    and "filter (gate_assistant em) as = xs @ t # ys"
    and "assistant_calls_succeed env pl ctx t
           (assistant_loop_history env pl ctx xs
              (user_loop_history env pl ctx (filter (gate_user em) us)
                 (h @ [Log Debug AgentEndFired]))) v r"
  shows "assistant_item_memory env pl ctx t
           (assistant_loop_history env pl ctx xs
              (user_loop_history env pl ctx (filter (gate_user em) us)
                 (h @ [Log Debug AgentEndFired]))) v r
         \<in> set (stores (drop (length h) (snd (agent_end em env pl ctx ev h))))"
proof -
  let ?h0 = "h @ [Log Debug AgentEndFired]"
  let ?hu = "user_loop_history env pl ctx (filter (gate_user em) us) ?h0"
  from agent_end_run [OF assms(1-5), of em pl ctx h] obtain tail where
      r: "snd (agent_end em env pl ctx ev h) =
        assistant_loop_history env pl ctx (filter (gate_assistant em) as) ?hu @ tail"
    by blast
  from user_loop_history_grows [of env pl ctx "filter (gate_user em) us" ?h0]
  obtain hs0 where u: "?hu = ?h0 @ hs0" by blast
  from assistant_loop_history_stored [OF assms(7), of ys] obtain hx hs where
      a: "assistant_loop_history env pl ctx (xs @ t # ys) ?hu = ?hu @ hx @ hs"
        "assistant_item_memory env pl ctx t (assistant_loop_history env pl ctx xs ?hu) v r
          \<in> set (stores hs)"
    by blast
  have "snd (agent_end em env pl ctx ev h) = (?h0 @ hs0) @ hx @ hs @ tail"
    unfolding r assms(6) a(1) using u by simp
  then have "drop (length h) (snd (agent_end em env pl ctx ev h))
      = Log Debug AgentEndFired # hs0 @ hx @ hs @ tail"
    by simp
  with a(2) show ?thesis by simp
qed


text \<open>
  C5. The hook never throws: whatever the environment does (any call may throw), it returns
  normally. Each loop returns normally on every list, from every history and count, and
  the loop over \<open>xs @ ys\<close> continues with \<open>ys\<close> from the count and the history that the
  loop over \<open>xs\<close> has left, whatever happened to the items of \<open>xs\<close>; a message \<open>t\<close> that
  follows \<open>xs\<close> and whose calls succeed at that history is written to the store and
  counted. For the whole hook, on a successful turn whose messages were extracted: every
  retained user message and every retained assistant message whose calls succeed at the
  history the messages before it have left is among the writes of the hook, whatever
  failed before it; every retained user message is sent to the embedding provider, in
  order, before anything else is sent (an embeddings object of the constructor is assumed:
  OpenAI comes with a client), and every retained assistant message is passed to the
  rater, in order, after the ratings of the user loop.
\<close>

theorem agent_end_isolation:
  "fst (agent_end em env pl ctx ev h) = Inr () \<and>
   (\<exists>k h'. capture_user env pl ctx xs n h = (Inr k, h') \<and>
      capture_user env pl ctx (xs @ ys) n h = capture_user env pl ctx ys k h' \<and>
      (user_calls_succeed env pl ctx t h' v r \<longrightarrow>
         (\<exists>k' hs. capture_user env pl ctx (xs @ t # ys) n h = (Inr k', h' @ hs) \<and> k < k' \<and>
            user_item_memory env pl ctx t h' v r \<in> set (stores hs)))) \<and>
   (\<exists>k h'. capture_assistant env pl ctx xs n h = (Inr k, h') \<and>
      capture_assistant env pl ctx (xs @ ys) n h = capture_assistant env pl ctx ys k h' \<and>
      (assistant_calls_succeed env pl ctx t h' v r \<longrightarrow>
         (\<exists>k' hs. capture_assistant env pl ctx (xs @ t # ys) n h = (Inr k', h' @ hs) \<and> k < k' \<and>
            assistant_item_memory env pl ctx t h' v r \<in> set (stores hs)))) \<and>
   (ev_success ev \<and> ev_messages ev = Some ms \<and> ms \<noteq> [] \<and>
    extractUserMessages env ms = Inr us \<and> extractAssistantMessages env ms = Inr as \<longrightarrow>
      (filter (gate_user em) us = upre @ u # upost \<and>
       user_calls_succeed env pl ctx u
         (user_loop_history env pl ctx upre (h @ [Log Debug AgentEndFired])) uv ur \<longrightarrow>
         user_item_memory env pl ctx u
           (user_loop_history env pl ctx upre (h @ [Log Debug AgentEndFired])) uv ur
         \<in> set (stores (drop (length h) (snd (agent_end em env pl ctx ev h))))) \<and>
      (filter (gate_assistant em) as = apre @ a # apost \<and>
       assistant_calls_succeed env pl ctx a
         (assistant_loop_history env pl ctx apre
            (user_loop_history env pl ctx (filter (gate_user em) us)
               (h @ [Log Debug AgentEndFired]))) av ar \<longrightarrow>
         assistant_item_memory env pl ctx a
           (assistant_loop_history env pl ctx apre
              (user_loop_history env pl ctx (filter (gate_user em) us)
                 (h @ [Log Debug AgentEndFired]))) av ar
         \<in> set (stores (drop (length h) (snd (agent_end em env pl ctx ev h))))) \<and>
      ((provider (pl_embeddings pl) = OpenAI \<longrightarrow> client (pl_embeddings pl)) \<longrightarrow>
         (\<exists>post. transmitted (drop (length h) (snd (agent_end em env pl ctx ev h))) =
            map (truncated_input (contextLength (pl_embeddings pl))) (filter (gate_user em) us)
            @ post)) \<and>
      (\<exists>pre. rated (drop (length h) (snd (agent_end em env pl ctx ev h))) =
         pre @ filter (gate_assistant em) as))"
proof -
  from agent_end_spec [of em env pl ctx ev h]
  obtain hs where a: "agent_end em env pl ctx ev h = (Inr (), h @ hs)"
      "\<forall>ms us as. ev_success ev \<and> ev_messages ev = Some ms \<and> ms \<noteq> [] \<and>
        extractUserMessages env ms = Inr us \<and> extractAssistantMessages env ms = Inr as \<longrightarrow>
        (\<exists>post. transmitted hs =
           concat (map (\<lambda>t. transmitted (embed_events (pl_embeddings pl) t))
             (filter (gate_user em) us)) @ post) \<and>
        (\<exists>pre. rated hs = pre @ filter (gate_assistant em) as)"
    by blast
  have d: "drop (length h) (snd (agent_end em env pl ctx ev h)) = hs"
    by (simp add: a(1))
  have c: "provider (pl_embeddings pl) = OpenAI \<longrightarrow> client (pl_embeddings pl) \<Longrightarrow>
      concat (map (\<lambda>t. transmitted (embed_events (pl_embeddings pl) t)) zs)
        = map (truncated_input (contextLength (pl_embeddings pl))) zs" for zs
    by (induction zs) (simp_all add: embed_events_transmitted)
  have never: "fst (agent_end em env pl ctx ev h) = Inr ()"
    by (simp add: a(1))
  have hook: "(filter (gate_user em) us = upre @ u # upost \<and>
       user_calls_succeed env pl ctx u
         (user_loop_history env pl ctx upre (h @ [Log Debug AgentEndFired])) uv ur \<longrightarrow>
         user_item_memory env pl ctx u
           (user_loop_history env pl ctx upre (h @ [Log Debug AgentEndFired])) uv ur
         \<in> set (stores (drop (length h) (snd (agent_end em env pl ctx ev h))))) \<and>
      (filter (gate_assistant em) as = apre @ a # apost \<and>
       assistant_calls_succeed env pl ctx a
         (assistant_loop_history env pl ctx apre
            (user_loop_history env pl ctx (filter (gate_user em) us)
               (h @ [Log Debug AgentEndFired]))) av ar \<longrightarrow>
         assistant_item_memory env pl ctx a
           (assistant_loop_history env pl ctx apre
              (user_loop_history env pl ctx (filter (gate_user em) us)
                 (h @ [Log Debug AgentEndFired]))) av ar
         \<in> set (stores (drop (length h) (snd (agent_end em env pl ctx ev h))))) \<and>
      ((provider (pl_embeddings pl) = OpenAI \<longrightarrow> client (pl_embeddings pl)) \<longrightarrow>
         (\<exists>post. transmitted (drop (length h) (snd (agent_end em env pl ctx ev h))) =
            map (truncated_input (contextLength (pl_embeddings pl))) (filter (gate_user em) us)
            @ post)) \<and>
      (\<exists>pre. rated (drop (length h) (snd (agent_end em env pl ctx ev h))) =
         pre @ filter (gate_assistant em) as)"
    if p: "ev_success ev \<and> ev_messages ev = Some ms \<and> ms \<noteq> [] \<and>
      extractUserMessages env ms = Inr us \<and> extractAssistantMessages env ms = Inr as"
  proof (intro conjI impI)
    assume "filter (gate_user em) us = upre @ u # upost \<and>
       user_calls_succeed env pl ctx u
         (user_loop_history env pl ctx upre (h @ [Log Debug AgentEndFired])) uv ur"
    with p show "user_item_memory env pl ctx u
           (user_loop_history env pl ctx upre (h @ [Log Debug AgentEndFired])) uv ur
         \<in> set (stores (drop (length h) (snd (agent_end em env pl ctx ev h))))"
      using agent_end_user_stored [of ev ms env us as em upre u upost pl ctx h uv ur] by blast
  next
    assume "filter (gate_assistant em) as = apre @ a # apost \<and>
       assistant_calls_succeed env pl ctx a
         (assistant_loop_history env pl ctx apre
            (user_loop_history env pl ctx (filter (gate_user em) us)
               (h @ [Log Debug AgentEndFired]))) av ar"
    with p show "assistant_item_memory env pl ctx a
           (assistant_loop_history env pl ctx apre
              (user_loop_history env pl ctx (filter (gate_user em) us)
                 (h @ [Log Debug AgentEndFired]))) av ar
         \<in> set (stores (drop (length h) (snd (agent_end em env pl ctx ev h))))"
      using agent_end_assistant_stored [of ev ms env us as em apre a apost pl ctx h av ar] by blast
  next
    assume cl: "provider (pl_embeddings pl) = OpenAI \<longrightarrow> client (pl_embeddings pl)"
    from a(2) p have "\<exists>post. transmitted hs =
           concat (map (\<lambda>t. transmitted (embed_events (pl_embeddings pl) t))
             (filter (gate_user em) us)) @ post"
      by blast
    then show "\<exists>post. transmitted (drop (length h) (snd (agent_end em env pl ctx ev h))) =
            map (truncated_input (contextLength (pl_embeddings pl))) (filter (gate_user em) us)
            @ post"
      unfolding d c [OF cl] .
  next
    from a(2) p show "\<exists>pre. rated (drop (length h) (snd (agent_end em env pl ctx ev h))) =
         pre @ filter (gate_assistant em) as"
      unfolding d by blast
  qed
  show ?thesis
    using never capture_user_later_stored [of env pl ctx xs n h ys t v r]
      capture_assistant_later_stored [of env pl ctx xs n h ys t v r] hook
    by blast
qed


lemma cap_binds:
  "r \<noteq> NaN \<Longrightarrow> \<not> num_lt r (Num 0.7) \<Longrightarrow> Math_min r (Num 0.4) = Num 0.4 \<and> num_le (Num 0.7) r"
  by (cases r) (auto simp: Math_min_def num_le_def)

lemma assistant_write_capped:
  assumes "\<And>h t. rateImportance env h t \<noteq> Inr NaN" and "assistant_write env h t m"
  shows "m_importance m = Num 0.4 \<and> m_source m = SourceAutoCaptureAssistant \<and>
    m_category m = ''other''"
proof -
  from assms(2) obtain r where r: "rateImportance env h t = Inr r" "\<not> num_lt r (Num 0.7)"
      "m_importance m = Math_min r (Num 0.4)"
    and s: "m_source m = SourceAutoCaptureAssistant" "m_category m = ''other''"
    by (auto simp: assistant_write_def)
  from assms(1) [of h t] r(1) have "r \<noteq> NaN" by auto
  from cap_binds [OF this r(2)] r(3) s show ?thesis by simp
qed

lemma capture_assistant_item_stores:
  "stores (snd (capture_assistant_item env pl ctx t h)) = stores h \<or>
   (\<exists>r v i. rateImportance env h t = Inr r \<and> \<not> num_lt r (Num 0.7) \<and>
      stores (snd (capture_assistant_item env pl ctx t h))
        = stores h @ [assistant_memory pl ctx t v r i])"
proof -
  obtain r where e: "embed env (pl_embeddings pl) t (h @ [RateImportance t]) =
      (r, h @ [RateImportance t] @ embed_events (pl_embeddings pl) t)"
    using embed_snd [of env "pl_embeddings pl" t "h @ [RateImportance t]"]
    by (cases "embed env (pl_embeddings pl) t (h @ [RateImportance t])") simp
  show ?thesis
    by (cases r) (auto simp: capture_assistant_item_def io_defs e split: sum.splits)
qed

text \<open>
  C10. Provided the rater returns numbers (never NaN; its contract is a score between 0
  and 1): every memory written by the loop over the assistant messages has importance
  exactly 0.4, source \<open>auto-capture-assistant\<close> and category \<open>other\<close>, and so has every
  memory with that source among the writes of the whole hook. An assistant message is
  written only when its rating \<open>r\<close> is at least 0.7, and the importance written is
  \<open>Math.min(r, 0.4)\<close>, which is then 0.4.
\<close>

theorem assistant_capture_importance:
  assumes "\<And>h t. rateImportance env h t \<noteq> Inr NaN"
  shows "(\<forall>m \<in> set (stores (drop (length h) (snd (capture_assistant env pl ctx ts n h)))).
            m_importance m = Num 0.4 \<and> m_source m = SourceAutoCaptureAssistant \<and>
            m_category m = ''other'') \<and>
         (\<forall>m \<in> set (stores (drop (length h) (snd (agent_end em env pl ctx ev h)))).
            m_source m = SourceAutoCaptureAssistant \<longrightarrow>
            m_importance m = Num 0.4 \<and> m_category m = ''other'') \<and>
         (stores (snd (capture_assistant_item env pl ctx t h)) \<noteq> stores h \<longrightarrow>
            (\<exists>r m. rateImportance env h t = Inr r \<and> num_le (Num 0.7) r \<and>
               stores (snd (capture_assistant_item env pl ctx t h)) = stores h @ [m] \<and>
               m_importance m = Math_min r (Num 0.4) \<and> m_importance m = Num 0.4))"
proof (intro conjI)
  from capture_assistant_spec [of env pl ctx ts n h]
  obtain k hs where a: "capture_assistant env pl ctx ts n h = (Inr k, h @ hs)"
      "list_all (\<lambda>m. \<exists>h'. assistant_write env h' (m_text m) m) (stores hs)"
    by blast
  have "drop (length h) (snd (capture_assistant env pl ctx ts n h)) = hs"
    by (simp add: a(1))
  with a(2) show "\<forall>m \<in> set (stores (drop (length h) (snd (capture_assistant env pl ctx ts n h)))).
      m_importance m = Num 0.4 \<and> m_source m = SourceAutoCaptureAssistant \<and> m_category m = ''other''"
    using assistant_write_capped [OF assms] by (auto simp: list_all_iff)
next
  from agent_end_spec [of em env pl ctx ev h]
  obtain hs where a: "agent_end em env pl ctx ev h = (Inr (), h @ hs)"
      "list_all (\<lambda>m. from_user_path m \<or> (\<exists>h'. assistant_write env h' (m_text m) m)) (stores hs)"
    by blast
  have "drop (length h) (snd (agent_end em env pl ctx ev h)) = hs"
    by (simp add: a(1))
  with a(2) show "\<forall>m \<in> set (stores (drop (length h) (snd (agent_end em env pl ctx ev h)))).
      m_source m = SourceAutoCaptureAssistant \<longrightarrow> m_importance m = Num 0.4 \<and> m_category m = ''other''"
    using assistant_write_capped [OF assms] by (auto simp: list_all_iff from_user_path_def)
next
  show "stores (snd (capture_assistant_item env pl ctx t h)) \<noteq> stores h \<longrightarrow>
      (\<exists>r m. rateImportance env h t = Inr r \<and> num_le (Num 0.7) r \<and>
         stores (snd (capture_assistant_item env pl ctx t h)) = stores h @ [m] \<and>
         m_importance m = Math_min r (Num 0.4) \<and> m_importance m = Num 0.4)"
  proof
    assume "stores (snd (capture_assistant_item env pl ctx t h)) \<noteq> stores h"
    with capture_assistant_item_stores [of env pl ctx t h]
    obtain r v i where r: "rateImportance env h t = Inr r" "\<not> num_lt r (Num 0.7)"
        "stores (snd (capture_assistant_item env pl ctx t h))
          = stores h @ [assistant_memory pl ctx t v r i]"
      by blast
    from assms [of h t] r(1) have "r \<noteq> NaN" by auto
    from cap_binds [OF this r(2)] r
    have "rateImportance env h t = Inr r \<and> num_le (Num 0.7) r \<and>
        stores (snd (capture_assistant_item env pl ctx t h))
          = stores h @ [assistant_memory pl ctx t v r i] \<and>
        m_importance (assistant_memory pl ctx t v r i) = Math_min r (Num 0.4) \<and>
        m_importance (assistant_memory pl ctx t v r i) = Num 0.4"
      by (simp add: assistant_memory_def)
    then show "\<exists>r m. rateImportance env h t = Inr r \<and> num_le (Num 0.7) r \<and>
        stores (snd (capture_assistant_item env pl ctx t h)) = stores h @ [m] \<and>
        m_importance m = Math_min r (Num 0.4) \<and> m_importance m = Num 0.4"
      by blast
  qed
qed


subsection \<open>A concrete turn\<close>

lemma gate_user_iff:
  "gate_user em t =
     (MIN_CAPTURE_CHARS \<le> length (trim t) \<and> length (trim t) \<le> MAX_CAPTURE_CHARS \<and>
      MIN_WORD_COUNT \<le> length (split_ws (trim t)) \<and> \<not> injected_context (trim t) \<and>
      \<not> list_ex (\<lambda>R. fst (regexp_test R 0 (trim t))) (NOISE_PATTERNS em) \<and>
      emojiCount (trim t) \<le> 3)"
  by (auto simp: gate_user_def passesAttentionGate_def some_test_NOISE_PATTERNS Let_def)

lemma gate_assistant_iff:
  "gate_assistant em t =
     (MIN_CAPTURE_CHARS \<le> length (trim t) \<and> length (trim t) \<le> MAX_ASSISTANT_CAPTURE_CHARS \<and>
      MIN_ASSISTANT_WORD_COUNT \<le> length (split_ws (trim t)) \<and>
      real (codeChars_loop 0 (trim t) 0) \<le> real (length (trim t)) * 0.5 \<and>
      \<not> tool_markup (trim t) \<and> \<not> injected_context (trim t) \<and>
      \<not> list_ex (\<lambda>R. fst (regexp_test R 0 (trim t))) (NOISE_PATTERNS em) \<and>
      emojiCount (trim t) \<le> 3)"
  by (auto simp: gate_assistant_def passesAssistantAttentionGate_def some_test_NOISE_PATTERNS
      Let_def)

definition beta_text :: jsstring where
  "beta_text = js ''We decided to ship the beta on Friday''"

definition tea_text :: jsstring where
  "tea_text = js ''My sister Ada prefers green tea in the morning''"

definition staging_text :: jsstring where
  "staging_text = js ''The staging database was migrated to the new cluster last night''"

lemmas gate_eval = trim_def split_ws.simps injected_context_def tool_markup_def emojiCount_def
  str_match_def emojiRegex_def match_loop.simps codeChars_loop.simps codeBlockRegex_def
  NOISE_PATTERNS_def is_emoji_def MIN_CAPTURE_CHARS_def MAX_CAPTURE_CHARS_def MIN_WORD_COUNT_def
  MAX_ASSISTANT_CAPTURE_CHARS_def MIN_ASSISTANT_WORD_COUNT_def js_def

lemma gate_beta: "gate_user em beta_text"
  unfolding gate_user_iff beta_text_def by (simp add: gate_eval rx_eval)

lemma gate_tea: "gate_user em tea_text"
  unfolding gate_user_iff tea_text_def by (simp add: gate_eval rx_eval)

lemma gate_staging: "gate_assistant em staging_text"
  unfolding gate_assistant_iff staging_text_def by (simp add: gate_eval rx_eval)


definition env_turn :: "unit env" where
  "env_turn = env0\<lparr>
     extractUserMessages := (\<lambda>ms. Inr [js ''ok'', beta_text, tea_text]),
     extractAssistantMessages := (\<lambda>ms. Inr [staging_text]),
     fetch_ollama := (\<lambda>h t. if t = beta_text then NotOk 503 (js ''down'')
                             else Json (Some [[Num (real (length t))]])),
     rateImportance := (\<lambda>h t. Inr (Num 0.9))\<rparr>"

definition turn :: "unit agent_end_event" where
  "turn = \<lparr>ev_success = True, ev_messages = Some [()]\<rparr>"

lemma text_facts:
  "length beta_text = 37" "length tea_text = 46" "length staging_text = 63"
  "tea_text \<noteq> beta_text" "staging_text \<noteq> beta_text" "js ''ok'' \<noteq> beta_text"
  by (simp_all add: beta_text_def tea_text_def staging_text_def js_def)

lemma gate_ok: "gate_user em (js ''ok'') = False"
  unfolding gate_user_iff by (simp add: js_def trim_def is_ws_def MIN_CAPTURE_CHARS_def)

lemma turn_retained:
  "filter (gate_user em) [js ''ok'', beta_text, tea_text] = [beta_text, tea_text]"
  "filter (gate_assistant em) [staging_text] = [staging_text]"
  by (simp_all add: gate_ok gate_beta gate_tea gate_staging)

lemma turn_run:
  "agent_end em env_turn plugin0 ctx0 turn [] =
     (Inr (),
      [Log Debug AgentEndFired,
       FetchOllama beta_text,
       Log Debug (AutoCaptureItemFailed (OllamaFailed 503 (js ''down''))),
       FetchOllama tea_text,
       FindSimilar [Num 46] (Num 0.95) 1,
       RateImportance tea_text,
       RandomUUID,
       StoreMemory (user_memory plugin0 ctx0 tea_text [Num 46] (Num 0.9) [120, 120, 120, 120, 120, 120, 120]),
       RateImportance staging_text,
       FetchOllama staging_text,
       FindSimilar [Num 63] (Num 0.95) 1,
       RandomUUID,
       StoreMemory (assistant_memory plugin0 ctx0 staging_text [Num 63] (Num 0.9)
         [120, 120, 120, 120, 120, 120, 120, 120, 120, 120, 120, 120]),
       Log Info (AutoCaptured 2)])"
  by (simp add: agent_end_def auto_capture_def lift_result_def capture_user_step_def
      capture_user_item_def capture_assistant_step_def capture_assistant_item_def io_defs
      embed_def embedOllama_def truncateToContext_def env_turn_def env0_def plugin0_def
      ollama512_def turn_def gate_ok gate_beta gate_tea gate_staging text_facts)


lemma turn_user_loop:
  "user_loop_history env_turn plugin0 ctx0 [beta_text] [Log Debug AgentEndFired] =
     [Log Debug AgentEndFired, FetchOllama beta_text,
      Log Debug (AutoCaptureItemFailed (OllamaFailed 503 (js ''down'')))]"
  "user_loop_history env_turn plugin0 ctx0 [beta_text, tea_text] [Log Debug AgentEndFired] =
     [Log Debug AgentEndFired, FetchOllama beta_text,
      Log Debug (AutoCaptureItemFailed (OllamaFailed 503 (js ''down''))),
      FetchOllama tea_text, FindSimilar [Num 46] (Num 0.95) 1, RateImportance tea_text, RandomUUID,
      StoreMemory (user_memory plugin0 ctx0 tea_text [Num 46] (Num 0.9)
        [120, 120, 120, 120, 120, 120, 120])]"
  by (simp_all add: user_loop_history_def capture_user_step_def capture_user_item_def io_defs
      embed_def embedOllama_def truncateToContext_def env_turn_def env0_def plugin0_def
      ollama512_def text_facts)

lemma turn_calls_succeed:
  "user_calls_succeed env_turn plugin0 ctx0 tea_text
     [Log Debug AgentEndFired, FetchOllama beta_text,
      Log Debug (AutoCaptureItemFailed (OllamaFailed 503 (js ''down'')))] [Num 46] (Num 0.9)"
  "assistant_calls_succeed env_turn plugin0 ctx0 staging_text h [Num 63] (Num 0.9)"
  by (simp_all add: user_calls_succeed_def assistant_calls_succeed_def io_defs
      embed_def embedOllama_def truncateToContext_def env_turn_def env0_def plugin0_def
      ollama512_def text_facts)

theorem agent_end_isolation_witness:
  "ev_success turn \<and> ev_messages turn = Some [()] \<and>
   extractUserMessages env_turn [()] = Inr [js ''ok'', beta_text, tea_text] \<and>
   extractAssistantMessages env_turn [()] = Inr [staging_text] \<and>
   filter (gate_user (\<lambda>c. False)) [js ''ok'', beta_text, tea_text] = [beta_text] @ tea_text # [] \<and>
   filter (gate_assistant (\<lambda>c. False)) [staging_text] = [] @ staging_text # [] \<and>
   user_loop_history env_turn plugin0 ctx0 [beta_text] [Log Debug AgentEndFired] =
     [Log Debug AgentEndFired, FetchOllama beta_text,
      Log Debug (AutoCaptureItemFailed (OllamaFailed 503 (js ''down'')))] \<and>
   user_calls_succeed env_turn plugin0 ctx0 tea_text
     (user_loop_history env_turn plugin0 ctx0 [beta_text] [Log Debug AgentEndFired])
     [Num 46] (Num 0.9) \<and>
   user_item_memory env_turn plugin0 ctx0 tea_text
     (user_loop_history env_turn plugin0 ctx0 [beta_text] [Log Debug AgentEndFired])
     [Num 46] (Num 0.9)
     \<in> set (stores (snd (agent_end (\<lambda>c. False) env_turn plugin0 ctx0 turn []))) \<and>
   assistant_calls_succeed env_turn plugin0 ctx0 staging_text
     (assistant_loop_history env_turn plugin0 ctx0 []
        (user_loop_history env_turn plugin0 ctx0 [beta_text, tea_text] [Log Debug AgentEndFired]))
     [Num 63] (Num 0.9) \<and>
   assistant_item_memory env_turn plugin0 ctx0 staging_text
     (assistant_loop_history env_turn plugin0 ctx0 []
        (user_loop_history env_turn plugin0 ctx0 [beta_text, tea_text] [Log Debug AgentEndFired]))
     [Num 63] (Num 0.9)
     \<in> set (stores (snd (agent_end (\<lambda>c. False) env_turn plugin0 ctx0 turn []))) \<and>
   fst (agent_end (\<lambda>c. False) env_turn plugin0 ctx0 turn []) = Inr () \<and>
   transmitted (snd (agent_end (\<lambda>c. False) env_turn plugin0 ctx0 turn []))
     = [beta_text, tea_text, staging_text] \<and>
   rated (snd (agent_end (\<lambda>c. False) env_turn plugin0 ctx0 turn []))
     = [tea_text, staging_text] \<and>
   map m_text (stores (snd (agent_end (\<lambda>c. False) env_turn plugin0 ctx0 turn [])))
     = [tea_text, staging_text]"
proof -
  have hyp: "ev_success turn \<and> ev_messages turn = Some [()] \<and> [()] \<noteq> ([]::unit list) \<and>
      extractUserMessages env_turn [()] = Inr [js ''ok'', beta_text, tea_text] \<and>
      extractAssistantMessages env_turn [()] = Inr [staging_text]"
    by (simp add: turn_def env_turn_def)
  have ret: "filter (gate_user (\<lambda>c. False)) [js ''ok'', beta_text, tea_text]
        = [beta_text] @ tea_text # [] \<and>
      filter (gate_assistant (\<lambda>c. False)) [staging_text] = [] @ staging_text # []"
    by (simp add: gate_ok gate_beta gate_tea gate_staging)
  have fail: "user_loop_history env_turn plugin0 ctx0 [beta_text] [Log Debug AgentEndFired] =
     [Log Debug AgentEndFired, FetchOllama beta_text,
      Log Debug (AutoCaptureItemFailed (OllamaFailed 503 (js ''down'')))]"
    by (rule turn_user_loop)
  have u: "user_calls_succeed env_turn plugin0 ctx0 tea_text
     (user_loop_history env_turn plugin0 ctx0 [beta_text] ([] @ [Log Debug AgentEndFired]))
     [Num 46] (Num 0.9)"
    by (simp add: turn_user_loop turn_calls_succeed)
  have a: "assistant_calls_succeed env_turn plugin0 ctx0 staging_text
     (assistant_loop_history env_turn plugin0 ctx0 []
        (user_loop_history env_turn plugin0 ctx0
           (filter (gate_user (\<lambda>c. False)) [js ''ok'', beta_text, tea_text])
           ([] @ [Log Debug AgentEndFired])))
     [Num 63] (Num 0.9)"
    by (rule turn_calls_succeed)
  note t = agent_end_isolation [where em = "\<lambda>c. False" and env = env_turn and pl = plugin0
      and ctx = ctx0 and ev = turn and h = "[]" and ms = "[()]"
      and us = "[js ''ok'', beta_text, tea_text]" and as = "[staging_text]"
      and xs = "[beta_text]" and ys = "[]" and n = 0 and t = tea_text
      and v = "[Num 46]" and r = "Num 0.9"
      and upre = "[beta_text]" and u = tea_text and upost = "[]" and uv = "[Num 46]"
      and ur = "Num 0.9" and apre = "[]" and a = staging_text and apost = "[]"
      and av = "[Num 63]" and ar = "Num 0.9"]
  from t have ok: "fst (agent_end (\<lambda>c. False) env_turn plugin0 ctx0 turn []) = Inr ()"
    by blast
  from t hyp ret u have us: "user_item_memory env_turn plugin0 ctx0 tea_text
      (user_loop_history env_turn plugin0 ctx0 [beta_text] ([] @ [Log Debug AgentEndFired]))
      [Num 46] (Num 0.9)
      \<in> set (stores (drop (length ([]::event list))
           (snd (agent_end (\<lambda>c. False) env_turn plugin0 ctx0 turn []))))"
    by blast
  from t hyp ret a have as: "assistant_item_memory env_turn plugin0 ctx0 staging_text
      (assistant_loop_history env_turn plugin0 ctx0 []
        (user_loop_history env_turn plugin0 ctx0
           (filter (gate_user (\<lambda>c. False)) [js ''ok'', beta_text, tea_text])
           ([] @ [Log Debug AgentEndFired])))
      [Num 63] (Num 0.9)
      \<in> set (stores (drop (length ([]::event list))
           (snd (agent_end (\<lambda>c. False) env_turn plugin0 ctx0 turn []))))"
    by blast
  have obs: "transmitted (snd (agent_end (\<lambda>c. False) env_turn plugin0 ctx0 turn []))
        = [beta_text, tea_text, staging_text] \<and>
      rated (snd (agent_end (\<lambda>c. False) env_turn plugin0 ctx0 turn []))
        = [tea_text, staging_text] \<and>
      map m_text (stores (snd (agent_end (\<lambda>c. False) env_turn plugin0 ctx0 turn [])))
        = [tea_text, staging_text]"
    by (simp add: turn_run user_memory_def assistant_memory_def)
  from us have us': "user_item_memory env_turn plugin0 ctx0 tea_text
     (user_loop_history env_turn plugin0 ctx0 [beta_text] [Log Debug AgentEndFired])
     [Num 46] (Num 0.9)
     \<in> set (stores (snd (agent_end (\<lambda>c. False) env_turn plugin0 ctx0 turn [])))"
    by simp
  from as have as': "assistant_item_memory env_turn plugin0 ctx0 staging_text
     (assistant_loop_history env_turn plugin0 ctx0 []
        (user_loop_history env_turn plugin0 ctx0 [beta_text, tea_text] [Log Debug AgentEndFired]))
     [Num 63] (Num 0.9)
     \<in> set (stores (snd (agent_end (\<lambda>c. False) env_turn plugin0 ctx0 turn [])))"
    by (simp add: gate_ok gate_beta gate_tea)
  from u have u': "user_calls_succeed env_turn plugin0 ctx0 tea_text
     (user_loop_history env_turn plugin0 ctx0 [beta_text] [Log Debug AgentEndFired])
     [Num 46] (Num 0.9)"
    by simp
  from a have a': "assistant_calls_succeed env_turn plugin0 ctx0 staging_text
     (assistant_loop_history env_turn plugin0 ctx0 []
        (user_loop_history env_turn plugin0 ctx0 [beta_text, tea_text] [Log Debug AgentEndFired]))
     [Num 63] (Num 0.9)"
    by (simp add: gate_ok gate_beta gate_tea)
  from hyp ret fail u' us' a' as' ok obs show ?thesis by blast
qed

theorem assistant_capture_importance_witness:
  "rateImportance env_turn [] staging_text = Inr (Num 0.9) \<and>
   map m_importance (filter (\<lambda>m. m_source m = SourceAutoCaptureAssistant)
      (stores (snd (agent_end (\<lambda>c. False) env_turn plugin0 ctx0 turn [])))) = [Num 0.4] \<and>
   map m_importance (filter (\<lambda>m. m_source m = SourceAutoCapture)
      (stores (snd (agent_end (\<lambda>c. False) env_turn plugin0 ctx0 turn [])))) = [Num 0.9]"
proof -
  have r: "\<And>h t. rateImportance env_turn h t \<noteq> Inr NaN"
    by (simp add: env_turn_def)
  have s: "stores (snd (agent_end (\<lambda>c. False) env_turn plugin0 ctx0 turn [])) =
      [user_memory plugin0 ctx0 tea_text [Num 46] (Num 0.9) [120, 120, 120, 120, 120, 120, 120],
       assistant_memory plugin0 ctx0 staging_text [Num 63] (Num 0.9)
         [120, 120, 120, 120, 120, 120, 120, 120, 120, 120, 120, 120]]"
    by (simp add: turn_run)
  from assistant_capture_importance [OF r, where em = "\<lambda>c. False" and pl = plugin0
      and ctx = ctx0 and ev = turn and h = "[]" and ts = "[]" and n = 0 and t = staging_text]
  have "\<forall>m \<in> set (stores (drop (length ([]::event list))
        (snd (agent_end (\<lambda>c. False) env_turn plugin0 ctx0 turn [])))).
      m_source m = SourceAutoCaptureAssistant \<longrightarrow> m_importance m = Num 0.4 \<and> m_category m = ''other''"
    by blast
  then have a: "m_importance (assistant_memory plugin0 ctx0 staging_text [Num 63] (Num 0.9)
         [120, 120, 120, 120, 120, 120, 120, 120, 120, 120, 120, 120]) = Num 0.4"
    by (simp add: s assistant_memory_def)
  have u: "rateImportance env_turn [] staging_text = Inr (Num 0.9)"
    by (simp add: env_turn_def)
  show ?thesis
    using a u by (simp add: s user_memory_def assistant_memory_def)
qed

section \<open>The \<open>memory neo4j sleep\<close> command (index.ts)\<close>

text \<open>
  A Number is a double. \<open>to_double\<close> gives the Number value of a real: the nearest
  double, ties to the even significand, and an infinity from \<open>2^1024 - 2^970\<close> on. The
  doubles of the binade \<open>[2^e, 2^(e+1))\<close> are the multiples of \<open>2^(e-52)\<close>; below
  \<open>2^-1022\<close> they are the multiples of \<open>2^-1074\<close>. \<open>halvings\<close> and \<open>doublings\<close> find
  the binade. The sign of a zero is not kept: no comparison of the command reads it.
\<close>

function halvings :: "real \<Rightarrow> nat" where
  "halvings x = (if x < 2 then 0 else Suc (halvings (x / 2)))"
  by pat_completeness auto
termination
proof (relation "measure (\<lambda>x. nat \<lceil>x\<rceil>)")
  show "wf (measure (\<lambda>x. nat \<lceil>x\<rceil>))" by simp
next
  fix x :: real
  assume "\<not> x < 2"
  then have "\<lceil>x / 2\<rceil> < \<lceil>x\<rceil>" "0 < \<lceil>x\<rceil>"
    by linarith+
  then show "(x / 2, x) \<in> measure (\<lambda>x. nat \<lceil>x\<rceil>)" by simp
qed

function doublings :: "real \<Rightarrow> nat" where
  "doublings x = (if x \<le> 0 \<or> 1 \<le> x then 0 else Suc (doublings (2 * x)))"
  by pat_completeness auto
termination
proof (relation "measure (\<lambda>x. nat \<lceil>1 / x\<rceil>)")
  show "wf (measure (\<lambda>x. nat \<lceil>1 / x\<rceil>))" by simp
next
  fix x :: real
  assume "\<not> (x \<le> 0 \<or> 1 \<le> x)"
  then have x: "0 < x" "x < 1" by simp_all
  then have y: "1 < 1 / x" by simp
  have c: "\<lceil>y / 2\<rceil> < \<lceil>y\<rceil> \<and> 0 < \<lceil>y\<rceil>" if "1 < y" for y :: real
  proof -
    from that have "1 < \<lceil>y\<rceil>" by (simp add: less_ceiling_iff)
    then have "2 \<le> real_of_int \<lceil>y\<rceil>" by linarith
    with le_of_int_ceiling [of y] have "y / 2 \<le> real_of_int \<lceil>y\<rceil> - 1" by linarith
    then have "y / 2 \<le> real_of_int (\<lceil>y\<rceil> - 1)" by simp
    then have "\<lceil>y / 2\<rceil> \<le> \<lceil>y\<rceil> - 1" by (rule ceiling_le)
    with \<open>1 < \<lceil>y\<rceil>\<close> show ?thesis by simp
  qed
  have "1 / (2 * x) = (1 / x) / 2" by simp
  with c [OF y] have "\<lceil>1 / (2 * x)\<rceil> < \<lceil>1 / x\<rceil>" "0 < \<lceil>1 / x\<rceil>"
    by (simp_all only:)
  then show "(2 * x, x) \<in> measure (\<lambda>x. nat \<lceil>1 / x\<rceil>)" by simp
qed

declare halvings.simps [simp del] doublings.simps [simp del]

definition binade :: "real \<Rightarrow> int" where
  "binade x = (if 1 \<le> x then int (halvings x) else - int (doublings x))"

definition pow2 :: "int \<Rightarrow> real" where
  "pow2 e = (if 0 \<le> e then 2 ^ nat e else 1 / 2 ^ nat (- e))"

definition round_half_even :: "real \<Rightarrow> int" where
  "round_half_even q =
     (let f = \<lfloor>q\<rfloor>; d = q - real_of_int f
      in if d < 1 / 2 then f else if 1 / 2 < d then f + 1 else if even f then f else f + 1)"

definition to_double :: "real \<Rightarrow> number" where
  "to_double x =
     (if x = 0 then Num 0
      else (let ulp = pow2 (max (binade \<bar>x\<bar>) (- 1022) - 52);
                y = real_of_int (round_half_even (\<bar>x\<bar> / ulp)) * ulp
            in if pow2 1024 \<le> y then (if x < 0 then NegInf else PosInf)
               else Num (if x < 0 then - y else y)))"

lemmas to_double_eval = to_double_def pow2_def binade_def halvings.simps doublings.simps
  round_half_even_def

lemma halvings_bounds: "1 \<le> x \<Longrightarrow> 2 ^ halvings x \<le> x \<and> x < 2 ^ Suc (halvings x)"
proof (induction x rule: halvings.induct)
  case (1 x)
  show ?case
  proof (cases "x < 2")
    case True
    with "1.prems" show ?thesis by (simp add: halvings.simps)
  next
    case False
    then have "1 \<le> x / 2" by simp
    from "1.IH" [OF False this] False show ?thesis
      by (simp add: halvings.simps [of x])
  qed
qed

lemma round_half_even_int: "round_half_even (real_of_int k) = k"
  by (simp add: round_half_even_def)

text \<open>An integer below \<open>2^53\<close> is a double.\<close>

lemma to_double_nat:
  assumes "n < 2 ^ 53"
  shows "to_double (real n) = Num (real n)"
proof (cases "n = 0")
  case True
  then show ?thesis by (simp add: to_double_def)
next
  case False
  define e where "e = halvings (real n)"
  from False have n1: "1 \<le> real n" by simp
  from halvings_bounds [OF n1] have b: "2 ^ e \<le> real n" "real n < 2 ^ Suc e"
    by (simp_all add: e_def)
  have "(2::real) ^ e < 2 ^ 53"
  proof -
    have "real n < 2 ^ 53" using assms by (metis of_nat_less_iff of_nat_numeral of_nat_power)
    with b(1) show ?thesis by linarith
  qed
  then have e: "e < 53"
    by (rule power_less_imp_less_exp [rotated]) simp
  have bin: "binade (real n) = int e" using n1 by (simp add: binade_def e_def)
  have ulp: "pow2 (max (int e) (- 1022) - 52) = 1 / 2 ^ (52 - e)"
  proof (cases "e = 52")
    case True
    then show ?thesis by (simp add: pow2_def)
  next
    case False
    with e have "e < 52" by simp
    then have "nat (52 - int e) = 52 - e" by simp
    with \<open>e < 52\<close> show ?thesis by (simp add: pow2_def)
  qed
  have q: "real n / (1 / 2 ^ (52 - e)) = real_of_int (int n * 2 ^ (52 - e))"
    by simp
  have y: "real_of_int (round_half_even (real n / (1 / 2 ^ (52 - e)))) * (1 / 2 ^ (52 - e)) = real n"
    unfolding q round_half_even_int by simp
  have lt: "real n < pow2 1024"
  proof -
    have "real n < 2 ^ 53" using assms by (metis of_nat_less_iff of_nat_numeral of_nat_power)
    also have "(2::real) ^ 53 \<le> 2 ^ 1024" by (rule power_increasing) simp_all
    finally show ?thesis by (simp add: pow2_def)
  qed
  have Y: "real_of_int (round_half_even (real n / pow2 (max (binade (real n)) (- 1022) - 52))) *
      pow2 (max (binade (real n)) (- 1022) - 52) = real n"
    unfolding bin ulp by (rule y)
  show ?thesis
    using False lt by (simp add: to_double_def Let_def Y)
qed


text \<open>From \<open>2^1024\<close> on the value is Infinity.\<close>

lemma round_half_even_ge_floor: "\<lfloor>q\<rfloor> \<le> round_half_even q"
  by (simp add: round_half_even_def Let_def)

lemma to_double_overflow:
  assumes "2 ^ 1024 \<le> x"
  shows "to_double x = PosInf"
proof -
  have big: "(1::real) \<le> 2 ^ 1024" by (rule one_le_power) simp
  with assms have x1: "1 \<le> x" by linarith
  define e where "e = halvings x"
  from halvings_bounds [OF x1] have b: "2 ^ e \<le> x" "x < 2 ^ Suc e"
    by (simp_all add: e_def)
  from assms b(2) have "(2::real) ^ 1024 < 2 ^ Suc e" by linarith
  then have "1024 < Suc e" by (rule power_less_imp_less_exp [rotated]) simp
  then have e: "1024 \<le> e" by simp
  have bin: "binade \<bar>x\<bar> = int e" using x1 by (simp add: binade_def e_def)
  have n: "nat (int e - 52) = e - 52" by simp
  have ulp: "pow2 (max (int e) (- 1022) - 52) = 2 ^ (e - 52)"
    using e by (simp add: pow2_def n)
  have split: "(2::real) ^ e = 2 ^ 52 * 2 ^ (e - 52)"
    using power_add [of "2::real" 52 "e - 52"] e by simp
  have "(2::real) ^ 52 \<le> x / 2 ^ (e - 52)"
    using b(1) unfolding split by (simp add: pos_le_divide_eq)
  then have "(2::int) ^ 52 \<le> \<lfloor>x / 2 ^ (e - 52)\<rfloor>"
    by (simp add: le_floor_iff)
  with round_half_even_ge_floor [of "x / 2 ^ (e - 52)"]
  have "(2::int) ^ 52 \<le> round_half_even (x / 2 ^ (e - 52))" by linarith
  then have "(2::real) ^ 52 \<le> real_of_int (round_half_even (x / 2 ^ (e - 52)))"
    by (metis of_int_le_iff of_int_numeral of_int_power)
  then have "(2::real) ^ 52 * 2 ^ (e - 52)
      \<le> real_of_int (round_half_even (x / 2 ^ (e - 52))) * 2 ^ (e - 52)"
    by (rule mult_right_mono) simp
  then have "(2::real) ^ e \<le> real_of_int (round_half_even (x / 2 ^ (e - 52))) * 2 ^ (e - 52)"
    unfolding split .
  moreover have "(2::real) ^ 1024 \<le> 2 ^ e" using e by (intro power_increasing) simp_all
  ultimately have y: "pow2 1024 \<le> real_of_int (round_half_even (\<bar>x\<bar> / 2 ^ (e - 52))) * 2 ^ (e - 52)"
    using x1 by (simp add: pow2_def)
  have Y: "pow2 1024 \<le> real_of_int (round_half_even
      (\<bar>x\<bar> / pow2 (max (binade \<bar>x\<bar>) (- 1022) - 52))) * pow2 (max (binade \<bar>x\<bar>) (- 1022) - 52)"
    unfolding bin ulp by (rule y)
  have "x \<noteq> 0" "\<not> x < 0" using x1 by simp_all
  then show ?thesis
    unfolding to_double_def Let_def using Y by simp
qed

lemma to_double_numeral:
  "numeral k < (2::nat) ^ 53 \<Longrightarrow> to_double (numeral k) = Num (numeral k)"
  using to_double_nat [of "numeral k"] by simp

text \<open>
  \<open>parseInt(s, 10)\<close> and \<open>parseFloat(s)\<close>: leading white space is skipped, a sign is read,
  and the longest prefix that is a decimal integer (for \<open>parseFloat\<close>: a decimal literal
  with an optional fraction and exponent, or \<open>Infinity\<close>) gives the value, rounded to a
  double; what follows the prefix is ignored, and NaN is returned when there is no such
  prefix. (For an integer of more than 20 significant digits the language lets an engine
  round from the first 20 digits; the model rounds the exact value, as V8 does.)
\<close>

definition digits_value :: "jsstring \<Rightarrow> nat" where
  "digits_value ds = foldl (\<lambda>acc d. 10 * acc + (d - 48)) 0 ds"

definition strip_sign :: "jsstring \<Rightarrow> bool \<times> jsstring" where
  "strip_sign s =
     (case s of
        [] \<Rightarrow> (False, [])
      | c # r \<Rightarrow> if c = 45 then (True, r) else if c = 43 then (False, r) else (False, s))"

definition signed :: "bool \<Rightarrow> real \<Rightarrow> number" where
  "signed neg x = to_double (if neg then - x else x)"

definition parseInt :: "jsstring \<Rightarrow> number" where
  "parseInt s =
     (case strip_sign (dropWhile is_ws s) of
        (neg, r) \<Rightarrow>
          if takeWhile is_digit r = [] then NaN
          else signed neg (real (digits_value (takeWhile is_digit r))))"

definition exponent_of :: "jsstring \<Rightarrow> int" where
  "exponent_of r =
     (case r of
        [] \<Rightarrow> 0
      | c # r' \<Rightarrow>
          if c = 101 \<or> c = 69
          then (case strip_sign r' of
                  (neg, ds) \<Rightarrow>
                    if takeWhile is_digit ds = [] then 0
                    else if neg then - int (digits_value (takeWhile is_digit ds))
                    else int (digits_value (takeWhile is_digit ds)))
          else 0)"

definition scale10 :: "real \<Rightarrow> int \<Rightarrow> real" where
  "scale10 x e = (if 0 \<le> e then x * 10 ^ nat e else x / 10 ^ nat (- e))"

definition parseFloat :: "jsstring \<Rightarrow> number" where
  "parseFloat s =
     (case strip_sign (dropWhile is_ws s) of
        (neg, r) \<Rightarrow>
          if starts_with r (js ''Infinity'') then (if neg then NegInf else PosInf)
          else (let ip = takeWhile is_digit r;
                    r1 = dropWhile is_digit r;
                    fp = (case r1 of [] \<Rightarrow> [] | c # r2 \<Rightarrow> if c = 46 then takeWhile is_digit r2 else []);
                    r3 = (case r1 of [] \<Rightarrow> [] | c # r2 \<Rightarrow> if c = 46 then dropWhile is_digit r2 else r1)
                in if ip = [] \<and> fp = [] then NaN
                   else signed neg (scale10
                          (real (digits_value ip) + real (digits_value fp) / 10 ^ length fp)
                          (exponent_of r3))))"

record sleep_cli_opts =
  c_agent :: "jsstring option"
  c_dedupThreshold :: "jsstring option"
  c_pareto :: "jsstring option"
  c_promotionMinAge :: "jsstring option"
  c_decayThreshold :: "jsstring option"
  c_decayHalfLife :: "jsstring option"
  c_batchSize :: "jsstring option"
  c_delay :: "jsstring option"

text \<open>\<open>opts.x ? parse(opts.x) : undefined\<close>: an option that is absent or empty is not parsed.\<close>

definition parsed :: "(jsstring \<Rightarrow> number) \<Rightarrow> jsstring option \<Rightarrow> number option" where
  "parsed parse s = (if truthy s then Some (parse (the s)) else None)"

text \<open>\<open>x != null && (Number.isNaN(x) || bad x)\<close>.\<close>

definition invalid :: "(number \<Rightarrow> bool) \<Rightarrow> number option \<Rightarrow> bool" where
  "invalid bad x = (case x of None \<Rightarrow> False | Some v \<Rightarrow> Number_isNaN v \<or> bad v)"

definition reject :: "string \<Rightarrow> unit io" where
  "reject msg = io_bind (io_emit (ConsoleError msg)) (\<lambda>_. io_emit (SetExitCode 1))"

definition sleep_options_of :: "sleep_cli_opts \<Rightarrow> sleep_options" where
  "sleep_options_of opts = \<lparr>
     o_agentId = c_agent opts,
     o_dedupThreshold = parsed parseFloat (c_dedupThreshold opts),
     o_paretoPercentile = parsed parseFloat (c_pareto opts),
     o_promotionMinAgeDays = parsed parseInt (c_promotionMinAge opts),
     o_decayRetentionThreshold = parsed parseFloat (c_decayThreshold opts),
     o_decayBaseHalfLifeDays = parsed parseInt (c_decayHalfLife opts),
     o_extractionBatchSize = parsed parseInt (c_batchSize opts),
     o_extractionDelayMs = parsed parseInt (c_delay opts)\<rparr>"

text \<open>
  The action of the command. The banner is printed first; the checks follow in the order
  of the source, each ending the action with its message and exit code 1; then the store
  is initialised and the sleep cycle runs. The dedup threshold is parsed where the
  parameters of \<open>runSleepCycle\<close> are built and is not among the checks.
\<close>

definition sleep_action :: "'m env \<Rightarrow> sleep_cli_opts \<Rightarrow> unit io" where
  "sleep_action env opts =
     io_bind (io_emit ConsoleLogBanner)
       (\<lambda>_. io_catch
          (if invalid (\<lambda>v. num_le v (Num 0)) (parsed parseInt (c_batchSize opts))
           then reject ''Error: --batch-size must be greater than 0''
           else if invalid (\<lambda>v. num_lt v (Num 0)) (parsed parseInt (c_delay opts))
           then reject ''Error: --delay must be >= 0''
           else if invalid (\<lambda>v. num_le v (Num 0)) (parsed parseInt (c_decayHalfLife opts))
           then reject ''Error: --decay-half-life must be greater than 0''
           else if invalid (\<lambda>v. num_lt v (Num 0) \<or> num_gt v (Num 1))
                     (parsed parseFloat (c_decayThreshold opts))
           then reject ''Error: --decay-threshold must be between 0 and 1''
           else if invalid (\<lambda>v. num_lt v (Num 0) \<or> num_gt v (Num 1))
                     (parsed parseFloat (c_pareto opts))
           then reject ''Error: --pareto must be between 0 and 1''
           else if invalid (\<lambda>v. num_lt v (Num 0)) (parsed parseInt (c_promotionMinAge opts))
           then reject ''Error: --promotion-min-age must be >= 0''
           else io_bind (io_ask EnsureInitialized (db_ensureInitialized env))
                  (\<lambda>_. io_bind (io_ask (RunSleepCycle (sleep_options_of opts))
                                   (\<lambda>h. runSleepCycle env h (sleep_options_of opts)))
                          (\<lambda>result. io_emit (ConsoleLogReport result))))
          (\<lambda>err. io_bind (io_emit (ConsoleErrorFailed err)) (\<lambda>_. io_emit (SetExitCode 1))))"

definition no_opts :: sleep_cli_opts where
  "no_opts = \<lparr>c_agent = None, c_dedupThreshold = None, c_pareto = None,
     c_promotionMinAge = None, c_decayThreshold = None, c_decayHalfLife = None,
     c_batchSize = None, c_delay = None\<rparr>"

lemmas parse_eval = parseInt_def parseFloat_def strip_sign_def signed_def digits_value_def
  exponent_of_def scale10_def parsed_def invalid_def truthy_def Number_isNaN_def is_ws_def
  is_digit_def js_def Let_def

lemma parse_examples:
  "parseInt (js ''  -12abc'') = Num (- 12)" "parseInt (js ''abc'') = NaN"
  "parseInt (js ''9007199254740993'') = Num 9007199254740992"
  "parseFloat (js ''0.25'') = Num 0.25" "parseFloat (js ''abc'') = NaN"
  "parseFloat (js ''25e-1'') = Num 2.5" "parseFloat (js ''-Infinity'') = NegInf"
  "parseFloat (js ''0.1'') = Num (3602879701896397 / 2 ^ 55)"
  "parseFloat (js ''1.0000000000000000001'') = Num 1"
  by (simp_all add: parse_eval) (simp_all add: to_double_eval Let_def)

lemma parse_overflow: "parseFloat (js ''1e400'') = PosInf"
  by (simp add: parse_eval to_double_overflow)

text \<open>
  The six checked options: when the value of one of them is NaN or out of its range, the
  action prints the banner and the message of the first failing check, sets exit code 1
  and makes no other call; the store is neither initialised nor is the sleep cycle run.
\<close>

lemma sleep_action_rejects:
  assumes "invalid (\<lambda>v. num_le v (Num 0)) (parsed parseInt (c_batchSize opts)) \<or>
     invalid (\<lambda>v. num_lt v (Num 0)) (parsed parseInt (c_delay opts)) \<or>
     invalid (\<lambda>v. num_le v (Num 0)) (parsed parseInt (c_decayHalfLife opts)) \<or>
     invalid (\<lambda>v. num_lt v (Num 0) \<or> num_gt v (Num 1)) (parsed parseFloat (c_decayThreshold opts)) \<or>
     invalid (\<lambda>v. num_lt v (Num 0) \<or> num_gt v (Num 1)) (parsed parseFloat (c_pareto opts)) \<or>
     invalid (\<lambda>v. num_lt v (Num 0)) (parsed parseInt (c_promotionMinAge opts))"
  shows "\<exists>msg. sleep_action env opts h = (Inr (), h @ [ConsoleLogBanner, ConsoleError msg, SetExitCode 1])"
  using assms by (auto simp: sleep_action_def reject_def io_defs)

text \<open>
  C4 at the failing input \<open>--dedup-threshold abc\<close> (no other option): the value parses to
  NaN, no check looks at it, and the action goes on to initialise the store and to run the
  sleep cycle with \<open>dedupThreshold = NaN\<close>; no error message is printed and the exit code
  is not set. The same happens for the out-of-range value 7.
\<close>

theorem sleep_dedup_threshold_not_validated:
  "sleep_action env0 (no_opts\<lparr>c_dedupThreshold := Some (js ''abc'')\<rparr>) [] =
     (Inr (),
      [ConsoleLogBanner, EnsureInitialized,
       RunSleepCycle
         \<lparr>o_agentId = None, o_dedupThreshold = Some NaN, o_paretoPercentile = None,
          o_promotionMinAgeDays = None, o_decayRetentionThreshold = None,
          o_decayBaseHalfLifeDays = None, o_extractionBatchSize = None,
          o_extractionDelayMs = None\<rparr>,
       ConsoleLogReport (SleepResult False)]) \<and>
   sleep_action env0 (no_opts\<lparr>c_dedupThreshold := Some (js ''7'')\<rparr>) [] =
     (Inr (),
      [ConsoleLogBanner, EnsureInitialized,
       RunSleepCycle
         \<lparr>o_agentId = None, o_dedupThreshold = Some (Num 7), o_paretoPercentile = None,
          o_promotionMinAgeDays = None, o_decayRetentionThreshold = None,
          o_decayBaseHalfLifeDays = None, o_extractionBatchSize = None,
          o_extractionDelayMs = None\<rparr>,
       ConsoleLogReport (SleepResult False)]) \<and>
   sleep_action env0 (no_opts\<lparr>c_pareto := Some (js ''abc'')\<rparr>) [] =
     (Inr (),
      [ConsoleLogBanner, ConsoleError ''Error: --pareto must be between 0 and 1'',
       SetExitCode 1])"
  by (simp add: sleep_action_def sleep_options_of_def reject_def no_opts_def env0_def io_defs
      parse_eval to_double_numeral num_gt_def num_le_def)

end
